theory Spec2Isabelle
  imports Main "HOL-Library.Word"
begin

section \<open>Data model of \<^verbatim>\<open>cloud/sync.ts\<close>\<close>

text \<open>
  The theory embeds the two classes of
  \<^verbatim>\<open>packages/frontend/workspace-impl/src/cloud/sync.ts\<close>:
  \<^verbatim>\<open>AffineSyncStorage\<close> (the client over a socket) and
  \<^verbatim>\<open>AffineStaticSyncStorage\<close> (the client over plain HTTP).

  A \<^verbatim>\<open>Uint8Array\<close> is a list of bytes. The parameter \<^verbatim>\<open>state\<close> of
  \<^verbatim>\<open>pull\<close> is tested with \<^verbatim>\<open>state ? ... : undefined\<close>, so the model gives it
  the type \<open>bytes option\<close>: \<open>None\<close> is \<^verbatim>\<open>undefined\<close>, and \<open>Some bs\<close> is an
  array object, which JavaScript takes as true whatever its length.
\<close>

type_synonym bytes = "8 word list"

text \<open>
  Values typed \<^verbatim>\<open>any\<close> in the source (the \<^verbatim>\<open>error\<close> member of a reply) are
  JavaScript values as the transport delivers them, parsed from JSON: they hold no
  function. Numbers are kept as the integers that a JavaScript number holds
  exactly, from \<open>- 2 ^ 53\<close> to \<open>2 ^ 53 - 1\<close>, read with \<open>sint\<close>. An object is
  the list of its members in the order of the JSON text, where a later member
  replaces an earlier one of the same name.
\<close>

datatype js_value =
    JUndefined
  | JNull
  | JBoolean bool
  | JNumber "54 word"
  | JString string
  | JArray "js_value list"
  | JObject "(string \<times> js_value) list"

text \<open>
  What a call can fail with: \<open>Error msg\<close> is an \<^verbatim>\<open>Error\<close> object whose
  \<^verbatim>\<open>message\<close> is \<open>msg\<close>; \<open>TypeError\<close> is thrown by a property read on
  \<^verbatim>\<open>null\<close> or \<^verbatim>\<open>undefined\<close> and by the conversion to a string of an object
  that cannot be converted; \<open>TimeoutError\<close> is the rejection of
  \<^verbatim>\<open>socket.timeout(ms).emitWithAck\<close> when no acknowledgement arrives in time;
  \<open>InvalidCharacterError\<close> is thrown by the decoder on a text that is not
  base64.
\<close>

datatype failure =
    Error string
  | TypeError
  | TimeoutError
  | InvalidCharacterError

text \<open>The conversion to a boolean that \<^verbatim>\<open>if (v)\<close> and \<^verbatim>\<open>v ? a : b\<close> apply.\<close>

fun truthy :: "js_value \<Rightarrow> bool" where
  "truthy JUndefined = False"
| "truthy JNull = False"
| "truthy (JBoolean b) = b"
| "truthy (JNumber n) = (n \<noteq> 0)"
| "truthy (JString s) = (s \<noteq> [])"
| "truthy (JArray vs) = True"
| "truthy (JObject fs) = True"

text \<open>
  The property read \<^verbatim>\<open>v.name\<close>, for the two names the source reads
  (\<^verbatim>\<open>code\<close> and \<^verbatim>\<open>message\<close>): it throws on \<^verbatim>\<open>null\<close> and
  \<^verbatim>\<open>undefined\<close>, looks the name up in an object (the last member of that name),
  and is \<^verbatim>\<open>undefined\<close> on every other value.
\<close>

fun get_property :: "js_value \<Rightarrow> string \<Rightarrow> failure + js_value" where
  "get_property JUndefined name = Inl TypeError"
| "get_property JNull name = Inl TypeError"
| "get_property (JObject fs) name =
     Inr (case map_of (rev fs) name of None \<Rightarrow> JUndefined | Some v \<Rightarrow> v)"
| "get_property v name = Inr JUndefined"

text \<open>
  The conversion to a string that \<^verbatim>\<open>new Error(v)\<close> applies to \<open>v\<close>. An integer
  is written in decimal. An array is the texts of its elements joined by commas,
  with the empty text for \<^verbatim>\<open>null\<close> and \<^verbatim>\<open>undefined\<close>. An object is
  \<^verbatim>\<open>[object Object]\<close>, the result of the method \<^verbatim>\<open>toString\<close> it inherits;
  when the object has a member named \<^verbatim>\<open>toString\<close> of its own, which is no
  function, the conversion throws a \<^verbatim>\<open>TypeError\<close>.
\<close>

function digits :: "int \<Rightarrow> string" where
  "digits i =
     (if i < 10 then [char_of (48 + i)]
      else digits (i div 10) @ [char_of (48 + i mod 10)])"
  by pat_completeness auto
termination
  by (relation "measure nat") auto

definition decimal :: "int \<Rightarrow> string" where
  "decimal i = (if i < 0 then CHR ''-'' # digits (- i) else digits i)"

fun to_string :: "js_value \<Rightarrow> failure + string"
  and join :: "js_value list \<Rightarrow> failure + string" where
  "to_string JUndefined = Inr ''undefined''"
| "to_string JNull = Inr ''null''"
| "to_string (JBoolean b) = Inr (if b then ''true'' else ''false'')"
| "to_string (JNumber n) = Inr (decimal (sint n))"
| "to_string (JString s) = Inr s"
| "to_string (JArray vs) = join vs"
| "to_string (JObject fs) =
     (if ''toString'' \<in> set (map fst fs) then Inl TypeError else Inr ''[object Object]'')"
| "join [] = Inr []"
| "join (v # vs) =
     (case (if v = JUndefined \<or> v = JNull then Inr [] else to_string v) of
        Inl e \<Rightarrow> Inl e
      | Inr s \<Rightarrow>
          if vs = [] then Inr s
          else (case join vs of Inl e \<Rightarrow> Inl e | Inr r \<Rightarrow> Inr (s @ '','' @ r)))"

text \<open>
  What \<^verbatim>\<open>throw new Error(v)\<close> throws: the constructor leaves the message empty
  when \<open>v\<close> is \<^verbatim>\<open>undefined\<close> and converts \<open>v\<close> to a string otherwise; when
  the conversion throws, that is what is thrown.
\<close>

definition new_Error :: "js_value \<Rightarrow> failure" where
  "new_Error v =
     (if v = JUndefined then Error []
      else (case to_string v of Inl e \<Rightarrow> e | Inr msg \<Rightarrow> Error msg))"

text \<open>
  The wire messages. A broadcast on \<^verbatim>\<open>server-updates\<close> and the payload of
  \<^verbatim>\<open>client-update-v2\<close> have the same members, so one record serves both.
\<close>

record message =
  workspaceId :: string
  guid :: string
  updates :: "string list"

record load_request =
  load_workspaceId :: string
  load_guid :: string
  stateVector :: "string option"

datatype payload =
    DocLoad (load_of: load_request)
  | ClientUpdate (update_of: message)

text \<open>
  One call of \<^verbatim>\<open>this.socket.timeout(ms).emitWithAck(event, payload)\<close>.
\<close>

datatype request = Request (timeout: nat) (event: string) (sent: payload)

text \<open>
  The reply to \<^verbatim>\<open>doc-load-v2\<close>, of type
  \<^verbatim>\<open>{ error: any } | { data: { missing: string; state: string } }\<close>. The source tests
  \<^verbatim>\<open>response.data.state\<close> for truth before decoding it, so the member may be
  missing: \<open>None\<close>.
\<close>

datatype load_response =
    ErrorResponse js_value
  | DataResponse string "string option"

text \<open>The reply to \<^verbatim>\<open>client-update-v2\<close>: \<^verbatim>\<open>{ error?: any; data: any }\<close>.\<close>

record update_response =
  error :: js_value
  response_data :: js_value

text \<open>What \<^verbatim>\<open>pull\<close> resolves with, when it is not \<^verbatim>\<open>null\<close>.\<close>

record pull_result =
  data :: bytes
  state :: "bytes option"

section \<open>The codec\<close>

text \<open>
  Modelled from the spec: \<^verbatim>\<open>uint8ArrayToBase64\<close> and \<^verbatim>\<open>base64ToUint8Array\<close>
  are imported from \<^verbatim>\<open>../utils/base64\<close>, which is not part of the sources at
  hand. The spec gives their contract (bytes to transport-safe text and back) and
  the wire format names the text \<^verbatim>\<open>base64text\<close>. Every function of the client
  below takes the encoder or the decoder it calls as a parameter, and every
  theorem holds for all of them. The encoder returns a text for every array; the
  decoder returns an array or throws (the spec names the error path on malformed
  input). The two definitions here are the instance at which the model is
  evaluated on concrete inputs: the base64 of RFC 4648, decoded as the platform's
  \<^verbatim>\<open>atob\<close> decodes it, which drops white space and one or two closing
  \<^verbatim>\<open>=\<close> of a text whose length is a multiple of four, and throws when a
  character outside the alphabet remains or one character is left over.
\<close>

definition base64_alphabet :: string where
  "base64_alphabet =
     ''ABCDEFGHIJKLMNOPQRSTUVWXYZabcdefghijklmnopqrstuvwxyz0123456789+/''"

definition sextet_char :: "nat \<Rightarrow> char" where
  "sextet_char n = base64_alphabet ! (n mod 64)"

fun encode_octets :: "nat list \<Rightarrow> string" where
  "encode_octets [] = []"
| "encode_octets [a] =
     [sextet_char (a div 4), sextet_char ((a mod 4) * 16), CHR ''='', CHR ''='']"
| "encode_octets [a, b] =
     [sextet_char (a div 4), sextet_char ((a mod 4) * 16 + b div 16),
      sextet_char ((b mod 16) * 4), CHR ''='']"
| "encode_octets (a # b # c # rest) =
     [sextet_char (a div 4), sextet_char ((a mod 4) * 16 + b div 16),
      sextet_char ((b mod 16) * 4 + c div 64), sextet_char (c mod 64)]
     @ encode_octets rest"

definition uint8ArrayToBase64 :: "bytes \<Rightarrow> string" where
  "uint8ArrayToBase64 array = encode_octets (map unat array)"

definition char_sextet :: "char \<Rightarrow> nat" where
  "char_sextet c = length (takeWhile (\<lambda>x. x \<noteq> c) base64_alphabet)"

fun decode_sextets :: "nat list \<Rightarrow> nat list" where
  "decode_sextets (a # b # c # d # rest) =
     [a * 4 + b div 16, (b mod 16) * 16 + c div 4, (c mod 4) * 64 + d]
     @ decode_sextets rest"
| "decode_sextets [a, b, c] = [a * 4 + b div 16, (b mod 16) * 16 + c div 4]"
| "decode_sextets [a, b] = [a * 4 + b div 16]"
| "decode_sextets rest = []"

definition strip_padding :: "string \<Rightarrow> string" where
  "strip_padding s =
     (if length s mod 4 = 0 \<and> s \<noteq> [] \<and> last s = CHR ''='' then
        (if last (butlast s) = CHR ''='' then butlast (butlast s) else butlast s)
      else s)"

definition base64ToUint8Array :: "string \<Rightarrow> failure + bytes" where
  "base64ToUint8Array base64 =
     (let data = strip_padding
                   (filter (\<lambda>c. c \<notin> set [CHR 0x09, CHR 0x0A, CHR 0x0C, CHR 0x0D, CHR '' ''])
                      base64)
      in if length data mod 4 = 1 \<or> \<not> list_all (\<lambda>c. c \<in> set base64_alphabet) data
         then Inl InvalidCharacterError
         else Inr (map of_nat (decode_sextets (map char_sextet data))))"

section \<open>\<^verbatim>\<open>AffineSyncStorage\<close>: requests and replies\<close>

definition SEND_TIMEOUT :: nat where
  "SEND_TIMEOUT = 30000"

text \<open>
  An \<^verbatim>\<open>async\<close> method runs up to its \<^verbatim>\<open>await\<close> of the acknowledgement,
  and resumes with the reply. The model has one function for each half and a third
  that joins them through the channel: \<open>emitWithAck\<close> stands for the channel and
  the remote peer, and answers a request with a reply, or with the failure the
  promise is rejected with. The logger calls are left out: they have no effect on
  the client.

  \<^verbatim>\<open>pull\<close>, first half (lines 43 to 59): \<^verbatim>\<open>state ? await uint8ArrayToBase64(state) : undefined\<close>
  is \<open>map_option encode state\<close>, since every array object is true.
\<close>

definition pull_request ::
  "(bytes \<Rightarrow> string) \<Rightarrow> string \<Rightarrow> string \<Rightarrow> bytes option \<Rightarrow> request" where
  "pull_request encode ws docId st =
     (let stateVector = (case st of None \<Rightarrow> None | Some array \<Rightarrow> Some (encode array))
      in Request SEND_TIMEOUT ''doc-load-v2''
           (DocLoad \<lparr>load_workspaceId = ws, load_guid = docId, stateVector = stateVector\<rparr>))"

text \<open>
  \<^verbatim>\<open>pull\<close>, second half (lines 68 to 82). \<^verbatim>\<open>response.data.state ? ... : undefined\<close>
  tests a string, and the empty string is false. The object returned is built
  member by member: \<^verbatim>\<open>missing\<close> is decoded first, then the state; nothing
  catches what the decoder throws, so it is what \<^verbatim>\<open>pull\<close> fails with.
\<close>

definition pull_response ::
  "(string \<Rightarrow> failure + bytes) \<Rightarrow> load_response \<Rightarrow> failure + pull_result option" where
  "pull_response decode response =
     (case response of
        ErrorResponse err \<Rightarrow>
          (case get_property err ''code'' of
             Inl e \<Rightarrow> Inl e
           | Inr code \<Rightarrow>
               if code = JString ''DOC_NOT_FOUND'' then Inr None
               else (case get_property err ''message'' of
                       Inl e \<Rightarrow> Inl e
                     | Inr msg \<Rightarrow> Inl (new_Error msg)))
      | DataResponse missing st \<Rightarrow>
          (case decode missing of
             Inl e \<Rightarrow> Inl e
           | Inr d \<Rightarrow>
               (case st of
                  None \<Rightarrow> Inr (Some \<lparr>data = d, state = None\<rparr>)
                | Some s \<Rightarrow>
                    if s \<noteq> [] then
                      (case decode s of
                         Inl e \<Rightarrow> Inl e
                       | Inr v \<Rightarrow> Inr (Some \<lparr>data = d, state = Some v\<rparr>))
                    else Inr (Some \<lparr>data = d, state = None\<rparr>))))"

definition pull ::
  "(bytes \<Rightarrow> string) \<Rightarrow> (string \<Rightarrow> failure + bytes) \<Rightarrow>
   (request \<Rightarrow> failure + load_response) \<Rightarrow>
   string \<Rightarrow> string \<Rightarrow> bytes option \<Rightarrow> failure + pull_result option" where
  "pull encode decode emitWithAck ws docId st =
     (case emitWithAck (pull_request encode ws docId st) of
        Inl e \<Rightarrow> Inl e
      | Inr response \<Rightarrow> pull_response decode response)"

text \<open>\<^verbatim>\<open>push\<close>, first half (lines 92 to 104).\<close>

definition push_request ::
  "(bytes \<Rightarrow> string) \<Rightarrow> string \<Rightarrow> string \<Rightarrow> bytes \<Rightarrow> request" where
  "push_request encode ws docId update =
     (let payload = encode update
      in Request SEND_TIMEOUT ''client-update-v2''
           (ClientUpdate \<lparr>workspaceId = ws, guid = docId, updates = [payload]\<rparr>))"

text \<open>
  \<^verbatim>\<open>push\<close>, second half (lines 107 to 115): \<^verbatim>\<open>if (response.error) throw new Error(response.error)\<close>,
  and otherwise the method ends without a value.
\<close>

definition push_response :: "update_response \<Rightarrow> failure + unit" where
  "push_response response =
     (if truthy (error response) then Inl (new_Error (error response)) else Inr ())"

definition push ::
  "(bytes \<Rightarrow> string) \<Rightarrow> (request \<Rightarrow> failure + update_response) \<Rightarrow>
   string \<Rightarrow> string \<Rightarrow> bytes \<Rightarrow> failure + unit" where
  "push encode emitWithAck ws docId update =
     (case emitWithAck (push_request encode ws docId update) of
        Inl e \<Rightarrow> Inl e
      | Inr response \<Rightarrow> push_response response)"

section \<open>\<^verbatim>\<open>AffineStaticSyncStorage\<close>\<close>

text \<open>
  \<^verbatim>\<open>fetchWithTraceReport\<close> is imported from \<^verbatim>\<open>@affine/graphql\<close> and is a
  parameter of the model: it answers a URL and the request options with a response,
  or with the failure its promise is rejected with. The options of the source name
  no method, so the request is a GET. Of the response the source reads \<^verbatim>\<open>ok\<close>
  and the body; \<open>ok\<close> is what the Fetch standard defines, a status from 200 to
  299.
\<close>

record request_init =
  priority :: string

record http_response =
  status :: nat
  body :: bytes

definition ok :: "http_response \<Rightarrow> bool" where
  "ok response = (200 \<le> status response \<and> status response \<le> 299)"

definition static_url :: "string \<Rightarrow> string \<Rightarrow> string" where
  "static_url ws docId = ''/api/workspaces/'' @ ws @ ''/docs/'' @ docId"

definition static_pull ::
  "(string \<Rightarrow> request_init \<Rightarrow> failure + http_response) \<Rightarrow> string \<Rightarrow> string \<Rightarrow>
   failure + pull_result option" where
  "static_pull fetchWithTraceReport ws docId =
     (case fetchWithTraceReport (static_url ws docId) \<lparr>priority = ''high''\<rparr> of
        Inl e \<Rightarrow> Inl e
      | Inr response \<Rightarrow>
          if ok response then Inr (Some \<lparr>data = body response, state = None\<rparr>)
          else Inr None)"

definition static_push :: "failure + unit" where
  "static_push = Inl (Error ''Method not implemented.'')"

definition static_subscribe :: "failure + unit" where
  "static_subscribe = Inl (Error ''Method not implemented.'')"

section \<open>\<^verbatim>\<open>AffineSyncStorage\<close>: the socket and its listeners\<close>

text \<open>
  Modelled from the spec: the socket returned by \<^verbatim>\<open>getIoManager().socket('/')\<close>
  is the Channel Handle of the spec, an event emitter of the transport library. Its
  contract is the one of section 6 of the spec: \<^verbatim>\<open>on(event, handler)\<close> registers
  a handler after those already registered for the event, \<^verbatim>\<open>off(event, handler)\<close>
  removes that handler and does nothing when it is not registered, an incoming
  event calls the handlers registered for it in the order of their registration,
  \<^verbatim>\<open>emit\<close> sends a message, \<^verbatim>\<open>connect()\<close> asks for a connection and
  \<^verbatim>\<open>connected\<close> tells whether there is one.

  The handlers are the closures of the source. Two closures are the same handler
  when they are the same object, so each carries what distinguishes it: the
  closures \<^verbatim>\<open>handleUpdate\<close> and \<^verbatim>\<open>handleDisconnect\<close> made by the \<open>n\<close>-th call
  of \<^verbatim>\<open>subscribe\<close> carry \<open>n\<close>, next to the values they capture. The callbacks
  \<^verbatim>\<open>cb\<close> and \<^verbatim>\<open>disconnect\<close> handed to \<^verbatim>\<open>subscribe\<close> belong to the caller;
  the model names them by a number and records each call of them. A callback is
  taken to return, without a call of the client from inside it.
\<close>

type_synonym callback = nat

datatype handler =
    HandleConnect string
  | HandleUpdate nat string callback
  | HandleDisconnect nat handler callback

text \<open>
  Everything the client does to the outside, in the order it does it: its calls of
  the socket's methods, its call of \<^verbatim>\<open>cleanupService.add\<close>, and its calls of the
  caller's callbacks. \<open>OnUpdate n cb docId data\<close> is the call \<^verbatim>\<open>cb(docId, data)\<close>
  made by the closure \<^verbatim>\<open>handleUpdate\<close> of the \<open>n\<close>-th subscription, and
  \<open>OnDisconnect n disconnect reason\<close> the call \<^verbatim>\<open>disconnect(reason)\<close> made by
  its \<^verbatim>\<open>handleDisconnect\<close>.
\<close>

datatype effect =
    On string handler
  | Off string handler
  | Emit string string
  | SocketConnect
  | CleanupAdd
  | OnUpdate nat callback string bytes
  | OnDisconnect nat callback string

text \<open>
  The state: the socket's \<^verbatim>\<open>connected\<close> flag and its table of listeners, the
  functions \<^verbatim>\<open>subscribe\<close> has returned so far (each a closure over the two
  handlers it detaches), and the effects so far.
\<close>

record world =
  connected :: bool
  callbacks :: "string \<Rightarrow> handler list"
  handles :: "(handler \<times> handler) list"
  trace :: "effect list"

text \<open>
  Modelled from the spec: the methods of the socket that the client calls, after
  the contract above. Each call is recorded; \<^verbatim>\<open>on\<close> and \<^verbatim>\<open>off\<close> change
  the listeners of one event. \<^verbatim>\<open>cleanupService.add\<close>, of the lifecycle service
  handed to the constructor, is recorded too; the hook it is given runs at the event
  \<open>Cleanup\<close> below.
\<close>

definition socket_on :: "string \<Rightarrow> handler \<Rightarrow> world \<Rightarrow> world" where
  "socket_on ev fn w =
     w\<lparr>callbacks := (callbacks w)(ev := callbacks w ev @ [fn]),
       trace := trace w @ [On ev fn]\<rparr>"

definition socket_off :: "string \<Rightarrow> handler \<Rightarrow> world \<Rightarrow> world" where
  "socket_off ev fn w =
     w\<lparr>callbacks := (callbacks w)(ev := remove1 fn (callbacks w ev)),
       trace := trace w @ [Off ev fn]\<rparr>"

definition socket_emit :: "string \<Rightarrow> string \<Rightarrow> world \<Rightarrow> world" where
  "socket_emit ev arg w = w\<lparr>trace := trace w @ [Emit ev arg]\<rparr>"

definition socket_connect :: "world \<Rightarrow> world" where
  "socket_connect w = w\<lparr>trace := trace w @ [SocketConnect]\<rparr>"

definition cleanupService_add :: "world \<Rightarrow> world" where
  "cleanupService_add w = w\<lparr>trace := trace w @ [CleanupAdd]\<rparr>"

text \<open>
  The handlers (lines 35 to 37 and 122 to 136). In \<^verbatim>\<open>handleUpdate\<close> the loop
  \<^verbatim>\<open>message.updates.forEach(update => cb(message.guid, base64ToUint8Array(update)))\<close>
  decodes an entry and then calls \<^verbatim>\<open>cb\<close>. Nothing catches what the decoder
  throws: the loop ends at the first entry it rejects, the entries after it are not
  delivered, and the promise of the \<^verbatim>\<open>async\<close> handler is rejected, which the
  socket does not look at.
\<close>

definition handleConnect :: "string \<Rightarrow> world \<Rightarrow> world" where
  "handleConnect ws w = socket_emit ''client-handshake-sync'' ws w"

fun forEach ::
  "(string \<Rightarrow> failure + bytes) \<Rightarrow> nat \<Rightarrow> callback \<Rightarrow> string \<Rightarrow> string list \<Rightarrow> world \<Rightarrow> world"
  where
  "forEach decode n cb docId [] w = w"
| "forEach decode n cb docId (update # rest) w =
     (case decode update of
        Inl e \<Rightarrow> w
      | Inr bs \<Rightarrow> forEach decode n cb docId rest (w\<lparr>trace := trace w @ [OnUpdate n cb docId bs]\<rparr>))"

definition handleUpdate ::
  "(string \<Rightarrow> failure + bytes) \<Rightarrow> nat \<Rightarrow> string \<Rightarrow> callback \<Rightarrow> message \<Rightarrow> world \<Rightarrow> world"
  where
  "handleUpdate decode n ws cb message w =
     (if workspaceId message = ws
      then forEach decode n cb (guid message) (updates message) w
      else w)"

definition handleDisconnect :: "nat \<Rightarrow> handler \<Rightarrow> callback \<Rightarrow> string \<Rightarrow> world \<Rightarrow> world" where
  "handleDisconnect n hu disconnect reason w =
     (let w' = socket_off ''server-updates'' hu w
      in w'\<lparr>trace := trace w' @ [OnDisconnect n disconnect reason]\<rparr>)"

text \<open>
  An incoming event carries no argument (\<^verbatim>\<open>connect\<close>), the reason
  (\<^verbatim>\<open>disconnect\<close>) or the broadcast (\<^verbatim>\<open>server-updates\<close>). The source registers
  each handler for its own event only; the last equation, a handler called with the
  argument of another event, is there to make the function total.
\<close>

datatype argument =
    NoArgument
  | Reason string
  | Broadcast message

fun call_handler :: "(string \<Rightarrow> failure + bytes) \<Rightarrow> handler \<Rightarrow> argument \<Rightarrow> world \<Rightarrow> world" where
  "call_handler decode (HandleConnect ws) NoArgument w = handleConnect ws w"
| "call_handler decode (HandleUpdate n ws cb) (Broadcast message) w =
     handleUpdate decode n ws cb message w"
| "call_handler decode (HandleDisconnect n hu disconnect) (Reason reason) w =
     handleDisconnect n hu disconnect reason w"
| "call_handler decode fn arg w = w"

text \<open>
  Modelled from the spec: the socket receives an event, and the handlers registered
  for it at that moment are called in turn, in the order of their registration.
\<close>

definition dispatch :: "(string \<Rightarrow> failure + bytes) \<Rightarrow> string \<Rightarrow> argument \<Rightarrow> world \<Rightarrow> world" where
  "dispatch decode ev arg w =
     foldl (\<lambda>w' fn. call_handler decode fn arg w') w (callbacks w ev)"

text \<open>The constructor (lines 18 to 33) and \<^verbatim>\<open>cleanup\<close> (lines 147 to 150).\<close>

definition constructor :: "string \<Rightarrow> world \<Rightarrow> world" where
  "constructor ws w =
     (let w1 = socket_on ''connect'' (HandleConnect ws) w;
          w2 = (if connected w1 then socket_emit ''client-handshake-sync'' ws w1
                else socket_connect w1)
      in cleanupService_add w2)"

definition cleanup :: "string \<Rightarrow> world \<Rightarrow> world" where
  "cleanup ws w =
     socket_off ''connect'' (HandleConnect ws) (socket_emit ''client-leave-sync'' ws w)"

text \<open>
  \<^verbatim>\<open>subscribe\<close> (lines 118 to 145) has no \<^verbatim>\<open>await\<close>: it runs to its end when
  called. The function it returns is the pair of handlers that function detaches;
  \<open>unsubscribe\<close> is a call of it (lines 141 to 144).
\<close>

definition subscribe :: "string \<Rightarrow> callback \<Rightarrow> callback \<Rightarrow> world \<Rightarrow> world" where
  "subscribe ws cb disconnect w =
     (let n = length (handles w);
          hu = HandleUpdate n ws cb;
          hd = HandleDisconnect n hu disconnect;
          w1 = socket_on ''server-updates'' hu w;
          w2 = socket_on ''disconnect'' hd w1
      in w2\<lparr>handles := handles w2 @ [(hu, hd)]\<rparr>)"

definition unsubscribe :: "handler \<times> handler \<Rightarrow> world \<Rightarrow> world" where
  "unsubscribe h w =
     socket_off ''disconnect'' (snd h) (socket_off ''server-updates'' (fst h) w)"

text \<open>
  What happens to a client after its construction: the socket connects, disconnects
  or receives a broadcast, the caller subscribes or calls the function that its
  \<open>n\<close>-th call of \<^verbatim>\<open>subscribe\<close> returned (nothing happens when there was no such
  call), and the cleanup service runs the hook registered by the constructor.
\<close>

datatype event =
    Connect
  | Disconnect string
  | ServerUpdates message
  | Subscribe callback callback
  | Unsubscribe nat
  | Cleanup

fun step :: "(string \<Rightarrow> failure + bytes) \<Rightarrow> string \<Rightarrow> event \<Rightarrow> world \<Rightarrow> world" where
  "step decode ws Connect w = dispatch decode ''connect'' NoArgument (w\<lparr>connected := True\<rparr>)"
| "step decode ws (Disconnect reason) w =
     dispatch decode ''disconnect'' (Reason reason) (w\<lparr>connected := False\<rparr>)"
| "step decode ws (ServerUpdates message) w =
     dispatch decode ''server-updates'' (Broadcast message) w"
| "step decode ws (Subscribe cb disconnect) w = subscribe ws cb disconnect w"
| "step decode ws (Unsubscribe n) w =
     (if n < length (handles w) then unsubscribe (handles w ! n) w else w)"
| "step decode ws Cleanup w = cleanup ws w"

fun run :: "(string \<Rightarrow> failure + bytes) \<Rightarrow> string \<Rightarrow> event list \<Rightarrow> world \<Rightarrow> world" where
  "run decode ws [] w = w"
| "run decode ws (e # es) w = run decode ws es (step decode ws e w)"

text \<open>A socket nobody listens to yet, and the client constructed on it.\<close>

definition socket :: "bool \<Rightarrow> world" where
  "socket c = \<lparr>connected = c, callbacks = (\<lambda>ev. []), handles = [], trace = []\<rparr>"

definition client :: "string \<Rightarrow> bool \<Rightarrow> world" where
  "client ws c = constructor ws (socket c)"

section \<open>Channels and servers to evaluate the model with\<close>

text \<open>
  A channel that acknowledges every request with the same reply, one that never
  acknowledges, and a server that answers every URL with the same response.
\<close>

definition acknowledges :: "'r \<Rightarrow> request \<Rightarrow> failure + 'r" where
  "acknowledges response req = Inr response"

definition never_acknowledges :: "request \<Rightarrow> failure + 'r" where
  "never_acknowledges req = Inl TimeoutError"

definition responds :: "http_response \<Rightarrow> string \<Rightarrow> request_init \<Rightarrow> failure + http_response" where
  "responds response url init = Inr response"

section \<open>Observing a run\<close>

text \<open>
  The effects that took place between an earlier state \<open>w\<close> and a later state
  \<open>w'\<close>, and the calls among them: the calls of \<^verbatim>\<open>cb\<close> and of
  \<^verbatim>\<open>disconnect\<close> made by the closures of the \<open>n\<close>-th subscription, the calls of
  \<^verbatim>\<open>cb\<close> by any subscription, and the handshake announcements.
\<close>

definition since :: "world \<Rightarrow> world \<Rightarrow> effect list" where
  "since w w' = drop (length (trace w)) (trace w')"

fun update_call_of :: "nat \<Rightarrow> effect \<Rightarrow> bool" where
  "update_call_of n (OnUpdate k cb docId bs) = (k = n)"
| "update_call_of n e = False"

fun disconnect_call_of :: "nat \<Rightarrow> effect \<Rightarrow> bool" where
  "disconnect_call_of n (OnDisconnect k dc reason) = (k = n)"
| "disconnect_call_of n e = False"

fun is_update_call :: "effect \<Rightarrow> bool" where
  "is_update_call (OnUpdate k cb docId bs) = True"
| "is_update_call e = False"

fun is_handshake :: "effect \<Rightarrow> bool" where
  "is_handshake (Emit ev arg) = (ev = ''client-handshake-sync'')"
| "is_handshake e = False"

fun is_subscribe :: "event \<Rightarrow> bool" where
  "is_subscribe (Subscribe cb dc) = True"
| "is_subscribe e = False"

text \<open>
  The \<open>n\<close>-th subscription is active while its \<^verbatim>\<open>handleUpdate\<close> is registered
  for \<^verbatim>\<open>server-updates\<close>.
\<close>

definition active :: "nat \<Rightarrow> world \<Rightarrow> bool" where
  "active n w \<longleftrightarrow>
     n < length (handles w) \<and> fst (handles w ! n) \<in> set (callbacks w ''server-updates'')"

text \<open>
  The entries of an update list that are delivered: those before the first entry
  the decoder rejects, decoded.
\<close>

fun decoded :: "(string \<Rightarrow> failure + bytes) \<Rightarrow> string list \<Rightarrow> bytes list" where
  "decoded decode [] = []"
| "decoded decode (update # rest) =
     (case decode update of Inl e \<Rightarrow> [] | Inr bs \<Rightarrow> bs # decoded decode rest)"

text \<open>
  What one handler adds to the effects when it is called with a broadcast, with no
  argument and with a reason, and the handler it detaches in the last case.
\<close>

definition update_calls ::
  "(string \<Rightarrow> failure + bytes) \<Rightarrow> message \<Rightarrow> handler \<Rightarrow> effect list" where
  "update_calls decode m h =
     (case h of
        HandleUpdate n ws cb \<Rightarrow>
          if workspaceId m = ws then map (OnUpdate n cb (guid m)) (decoded decode (updates m))
          else []
      | _ \<Rightarrow> [])"

definition connect_calls :: "handler \<Rightarrow> effect list" where
  "connect_calls h = (case h of HandleConnect ws \<Rightarrow> [Emit ''client-handshake-sync'' ws] | _ \<Rightarrow> [])"

definition disconnect_calls :: "string \<Rightarrow> handler \<Rightarrow> effect list" where
  "disconnect_calls r h =
     (case h of HandleDisconnect n hu dc \<Rightarrow> [Off ''server-updates'' hu, OnDisconnect n dc r] | _ \<Rightarrow> [])"

definition detached :: "handler \<Rightarrow> handler list" where
  "detached h = (case h of HandleDisconnect n hu dc \<Rightarrow> [hu] | _ \<Rightarrow> [])"

text \<open>
  The invariant of the listeners of a client. The \<open>n\<close>-th function returned by
  \<^verbatim>\<open>subscribe\<close> closes over the two handlers made by the \<open>n\<close>-th call, both
  bound to the client's collection id; no handler is registered twice; every
  registered handler was made by a call of \<^verbatim>\<open>subscribe\<close>; and while the
  \<^verbatim>\<open>handleUpdate\<close> of a subscription is registered, so is its
  \<^verbatim>\<open>handleDisconnect\<close>.
\<close>

definition closure_pair :: "string \<Rightarrow> nat \<Rightarrow> handler \<times> handler \<Rightarrow> bool" where
  "closure_pair ws n h \<longleftrightarrow>
     (\<exists>cb dc. h = (HandleUpdate n ws cb, HandleDisconnect n (HandleUpdate n ws cb) dc))"

definition well_formed :: "string \<Rightarrow> world \<Rightarrow> bool" where
  "well_formed ws w \<longleftrightarrow>
     (\<forall>n < length (handles w). closure_pair ws n (handles w ! n))
   \<and> distinct (callbacks w ''server-updates'')
   \<and> distinct (callbacks w ''disconnect'')
   \<and> set (callbacks w ''server-updates'') \<subseteq> fst ` set (handles w)
   \<and> set (callbacks w ''disconnect'') \<subseteq> snd ` set (handles w)
   \<and> (\<forall>h \<in> set (handles w). fst h \<in> set (callbacks w ''server-updates'')
         \<longrightarrow> snd h \<in> set (callbacks w ''disconnect''))"

text \<open>Neither handler of the \<open>n\<close>-th subscription is registered.\<close>

definition absent :: "nat \<Rightarrow> world \<Rightarrow> bool" where
  "absent n w \<longleftrightarrow>
     fst (handles w ! n) \<notin> set (callbacks w ''server-updates'')
   \<and> snd (handles w ! n) \<notin> set (callbacks w ''disconnect'')"

section \<open>Requests and replies\<close>

lemmas base64_defs =
  uint8ArrayToBase64_def base64ToUint8Array_def strip_padding_def char_sextet_def
  sextet_char_def base64_alphabet_def

lemmas client_defs =
  client_def socket_def constructor_def cleanup_def subscribe_def unsubscribe_def
  socket_on_def socket_off_def socket_emit_def socket_connect_def cleanupService_add_def
  dispatch_def handleConnect_def handleUpdate_def handleDisconnect_def
  since_def active_def Let_def

text \<open>
  Claim C1 says that \<^verbatim>\<open>pull(docId, localState)\<close> leaves \<^verbatim>\<open>stateVector\<close> out of
  the request when \<^verbatim>\<open>localState\<close> is empty or absent. The source tests
  \<^verbatim>\<open>state\<close> for truth, and an empty \<^verbatim>\<open>Uint8Array\<close> is an object, hence true:
  for the empty array the request carries the encoding of the empty array.
\<close>

theorem pull_request_empty_state_counterexample:
  "stateVector (load_of (sent (pull_request uint8ArrayToBase64 ''workspace'' ''doc'' (Some []))))
     = Some []"
  by (simp add: pull_request_def uint8ArrayToBase64_def)

text \<open>
  Claim C1, as the source has it: when \<^verbatim>\<open>localState\<close> is absent the request
  carries no \<^verbatim>\<open>stateVector\<close>; when it is an array, empty or not, the request
  carries its encoding. The request built is the one handed to the channel.
\<close>

theorem pull_request_stateVector:
  "pull_request encode ws docId None =
     Request 30000 ''doc-load-v2''
       (DocLoad \<lparr>load_workspaceId = ws, load_guid = docId, stateVector = None\<rparr>)
   \<and> pull_request encode ws docId (Some array) =
     Request 30000 ''doc-load-v2''
       (DocLoad \<lparr>load_workspaceId = ws, load_guid = docId, stateVector = Some (encode array)\<rparr>)
   \<and> pull encode decode emitWithAck ws docId st =
     (case emitWithAck (pull_request encode ws docId st) of
        Inl e \<Rightarrow> Inl e | Inr response \<Rightarrow> pull_response decode response)"
  by (simp add: pull_request_def pull_def SEND_TIMEOUT_def)

text \<open>
  Claim C2 says that a reply with data gives the decoded state whenever the reply
  includes one. The source tests \<^verbatim>\<open>response.data.state\<close> for truth, and the
  empty string is false: a reply whose state is the encoding of the empty state
  vector gives no state.
\<close>

theorem pull_reply_empty_state_counterexample:
  "pull uint8ArrayToBase64 base64ToUint8Array
     (acknowledges (DataResponse (uint8ArrayToBase64 [1, 2]) (Some (uint8ArrayToBase64 []))))
     ''workspace'' ''doc'' None
   = Inr (Some \<lparr>data = [1, 2], state = None\<rparr>)"
  by (simp add: pull_def acknowledges_def pull_response_def base64_defs)

text \<open>
  Claim C2, as the source has it. When the reply is an error object whose
  \<^verbatim>\<open>code\<close> is \<^verbatim>\<open>'DOC_NOT_FOUND'\<close>, \<^verbatim>\<open>pull\<close> returns \<^verbatim>\<open>null\<close>. When it is
  any other error object, \<^verbatim>\<open>pull\<close> fails with \<^verbatim>\<open>new Error(message)\<close> for the
  object's \<^verbatim>\<open>message\<close>: an \<^verbatim>\<open>Error\<close> whose message is that message when it is
  a string, and the empty message when the object has none. When the reply carries
  data, \<^verbatim>\<open>pull\<close> decodes \<^verbatim>\<open>missing\<close> and then the state, if the reply has one
  that is not the empty string. When the decoder accepts them, \<^verbatim>\<open>pull\<close> returns
  the decoded \<^verbatim>\<open>missing\<close> as data, with the decoded state, or with no state when
  the reply has none or the empty string; when the decoder rejects one of them,
  \<^verbatim>\<open>pull\<close> fails with what the decoder throws.
\<close>

theorem pull_reply:
  assumes "emitWithAck (pull_request encode ws docId st) = Inr response"
  shows "(response = ErrorResponse (JObject fs)
            \<and> map_of (rev fs) ''code'' = Some (JString ''DOC_NOT_FOUND'')
            \<longrightarrow> pull encode decode emitWithAck ws docId st = Inr None)
       \<and> (response = ErrorResponse (JObject fs)
            \<and> map_of (rev fs) ''code'' \<noteq> Some (JString ''DOC_NOT_FOUND'')
            \<longrightarrow> pull encode decode emitWithAck ws docId st =
                 Inl (new_Error (case map_of (rev fs) ''message'' of
                                   None \<Rightarrow> JUndefined | Some m \<Rightarrow> m)))
       \<and> (response = ErrorResponse (JObject fs)
            \<and> map_of (rev fs) ''code'' \<noteq> Some (JString ''DOC_NOT_FOUND'')
            \<and> map_of (rev fs) ''message'' = Some (JString msg)
            \<longrightarrow> pull encode decode emitWithAck ws docId st = Inl (Error msg))
       \<and> (response = ErrorResponse (JObject fs)
            \<and> map_of (rev fs) ''code'' \<noteq> Some (JString ''DOC_NOT_FOUND'')
            \<and> map_of (rev fs) ''message'' = None
            \<longrightarrow> pull encode decode emitWithAck ws docId st = Inl (Error []))
       \<and> (response = DataResponse missing (Some s) \<and> s \<noteq> []
            \<and> decode missing = Inr d \<and> decode s = Inr v
            \<longrightarrow> pull encode decode emitWithAck ws docId st =
                 Inr (Some \<lparr>data = d, state = Some v\<rparr>))
       \<and> ((response = DataResponse missing None \<or> response = DataResponse missing (Some []))
            \<and> decode missing = Inr d
            \<longrightarrow> pull encode decode emitWithAck ws docId st =
                 Inr (Some \<lparr>data = d, state = None\<rparr>))
       \<and> (response = DataResponse missing sv \<and> decode missing = Inl e
            \<longrightarrow> pull encode decode emitWithAck ws docId st = Inl e)
       \<and> (response = DataResponse missing (Some s) \<and> s \<noteq> []
            \<and> decode missing = Inr d \<and> decode s = Inl e
            \<longrightarrow> pull encode decode emitWithAck ws docId st = Inl e)"
proof -
  have p: "pull encode decode emitWithAck ws docId st = pull_response decode response"
    using assms by (simp add: pull_def)
  have 1: "pull_response decode (ErrorResponse (JObject fs)) = Inr None"
    if "map_of (rev fs) ''code'' = Some (JString ''DOC_NOT_FOUND'')"
    using that by (simp add: pull_response_def)
  have 2: "pull_response decode (ErrorResponse (JObject fs)) =
             Inl (new_Error (case map_of (rev fs) ''message'' of
                               None \<Rightarrow> JUndefined | Some m \<Rightarrow> m))"
    if "map_of (rev fs) ''code'' \<noteq> Some (JString ''DOC_NOT_FOUND'')"
    using that by (auto simp add: pull_response_def split: option.splits)
  have 3: "pull_response decode (ErrorResponse (JObject fs)) = Inl (Error msg)"
    if "map_of (rev fs) ''code'' \<noteq> Some (JString ''DOC_NOT_FOUND'')"
      and "map_of (rev fs) ''message'' = Some (JString msg)"
    using 2 [OF that(1)] that(2) by (simp add: new_Error_def)
  have 4: "pull_response decode (ErrorResponse (JObject fs)) = Inl (Error [])"
    if "map_of (rev fs) ''code'' \<noteq> Some (JString ''DOC_NOT_FOUND'')"
      and "map_of (rev fs) ''message'' = None"
    using 2 [OF that(1)] that(2) by (simp add: new_Error_def)
  have 5: "pull_response decode (DataResponse missing (Some s)) =
             Inr (Some \<lparr>data = d, state = Some v\<rparr>)"
    if "s \<noteq> []" "decode missing = Inr d" "decode s = Inr v"
    using that by (simp add: pull_response_def)
  have 6: "pull_response decode (DataResponse missing None) =
             Inr (Some \<lparr>data = d, state = None\<rparr>)"
      "pull_response decode (DataResponse missing (Some [])) =
             Inr (Some \<lparr>data = d, state = None\<rparr>)"
    if "decode missing = Inr d"
    using that by (simp_all add: pull_response_def)
  have 7: "pull_response decode (DataResponse missing sv) = Inl e"
    if "decode missing = Inl e"
    using that by (simp add: pull_response_def)
  have 8: "pull_response decode (DataResponse missing (Some s)) = Inl e"
    if "s \<noteq> []" "decode missing = Inr d" "decode s = Inl e"
    using that by (simp add: pull_response_def)
  show ?thesis
    unfolding p using 1 2 3 4 5 6 7 8 by blast
qed

theorem pull_reply_witness:
  "pull uint8ArrayToBase64 base64ToUint8Array
     (acknowledges (ErrorResponse (JObject [(''code'', JString ''DOC_NOT_FOUND'')])))
     ''workspace'' ''doc'' (Some [1]) = Inr None
   \<and> pull uint8ArrayToBase64 base64ToUint8Array
     (acknowledges (ErrorResponse
        (JObject [(''code'', JString ''INTERNAL''), (''message'', JString ''no access'')])))
     ''workspace'' ''doc'' (Some [1]) = Inl (Error ''no access'')
   \<and> pull uint8ArrayToBase64 base64ToUint8Array
     (acknowledges (DataResponse ''AQI='' (Some ''Aw=='')))
     ''workspace'' ''doc'' (Some [1]) = Inr (Some \<lparr>data = [1, 2], state = Some [3]\<rparr>)
   \<and> pull uint8ArrayToBase64 base64ToUint8Array
     (acknowledges (DataResponse ''AQI='' None))
     ''workspace'' ''doc'' (Some [1]) = Inr (Some \<lparr>data = [1, 2], state = None\<rparr>)
   \<and> pull uint8ArrayToBase64 base64ToUint8Array
     (acknowledges (DataResponse ''!!!!'' (Some ''Aw=='')))
     ''workspace'' ''doc'' (Some [1]) = Inl InvalidCharacterError
   \<and> pull uint8ArrayToBase64 base64ToUint8Array
     (acknowledges (DataResponse ''AQI='' (Some ''!!!!'')))
     ''workspace'' ''doc'' (Some [1]) = Inl InvalidCharacterError"
proof -
  have d: "base64ToUint8Array ''AQI='' = Inr [1, 2]" "base64ToUint8Array ''Aw=='' = Inr [3]"
    "base64ToUint8Array ''!!!!'' = Inl InvalidCharacterError"
    by (simp_all add: base64_defs)
  show ?thesis
    using pull_reply [where emitWithAck = "acknowledges
              (ErrorResponse (JObject [(''code'', JString ''DOC_NOT_FOUND'')]))"
            and response = "ErrorResponse (JObject [(''code'', JString ''DOC_NOT_FOUND'')])"
            and fs = "[(''code'', JString ''DOC_NOT_FOUND'')]"
            and encode = uint8ArrayToBase64 and decode = base64ToUint8Array
            and ws = "''workspace''" and docId = "''doc''" and st = "Some [1]"]
          pull_reply [where emitWithAck = "acknowledges (ErrorResponse
              (JObject [(''code'', JString ''INTERNAL''), (''message'', JString ''no access'')]))"
            and response = "ErrorResponse
              (JObject [(''code'', JString ''INTERNAL''), (''message'', JString ''no access'')])"
            and fs = "[(''code'', JString ''INTERNAL''), (''message'', JString ''no access'')]"
            and msg = "''no access''"
            and encode = uint8ArrayToBase64 and decode = base64ToUint8Array
            and ws = "''workspace''" and docId = "''doc''" and st = "Some [1]"]
          pull_reply [where emitWithAck = "acknowledges (DataResponse ''AQI='' (Some ''Aw==''))"
            and response = "DataResponse ''AQI='' (Some ''Aw=='')"
            and missing = "''AQI=''" and s = "''Aw==''" and d = "[1, 2]" and v = "[3]"
            and encode = uint8ArrayToBase64 and decode = base64ToUint8Array
            and ws = "''workspace''" and docId = "''doc''" and st = "Some [1]"]
          pull_reply [where emitWithAck = "acknowledges (DataResponse ''AQI='' None)"
            and response = "DataResponse ''AQI='' None" and missing = "''AQI=''"
            and d = "[1, 2]"
            and encode = uint8ArrayToBase64 and decode = base64ToUint8Array
            and ws = "''workspace''" and docId = "''doc''" and st = "Some [1]"]
          pull_reply [where emitWithAck = "acknowledges (DataResponse ''!!!!'' (Some ''Aw==''))"
            and response = "DataResponse ''!!!!'' (Some ''Aw=='')" and missing = "''!!!!''"
            and sv = "Some ''Aw==''" and e = InvalidCharacterError
            and encode = uint8ArrayToBase64 and decode = base64ToUint8Array
            and ws = "''workspace''" and docId = "''doc''" and st = "Some [1]"]
          pull_reply [where emitWithAck = "acknowledges (DataResponse ''AQI='' (Some ''!!!!''))"
            and response = "DataResponse ''AQI='' (Some ''!!!!'')" and missing = "''AQI=''"
            and s = "''!!!!''" and d = "[1, 2]" and e = InvalidCharacterError
            and encode = uint8ArrayToBase64 and decode = base64ToUint8Array
            and ws = "''workspace''" and docId = "''doc''" and st = "Some [1]"]
    by (simp add: d acknowledges_def new_Error_def)
qed




text \<open>
  Claim C6: for every \<^verbatim>\<open>push(docId, update)\<close>, the empty update included, the
  request carries the bound collection id, the document id and an array with one
  element, the encoding of the update, and it is sent with a timeout of 30000 ms,
  as every request of \<^verbatim>\<open>pull\<close> is. The request built is the one handed to the
  channel.
\<close>

theorem push_request_payload:
  "push_request encode ws docId update =
     Request 30000 ''client-update-v2''
       (ClientUpdate \<lparr>workspaceId = ws, guid = docId, updates = [encode update]\<rparr>)
   \<and> push_request encode ws docId [] =
     Request 30000 ''client-update-v2''
       (ClientUpdate \<lparr>workspaceId = ws, guid = docId, updates = [encode []]\<rparr>)
   \<and> timeout (pull_request encode ws docId st) = 30000
   \<and> push encode emitWithAck ws docId update =
     (case emitWithAck (push_request encode ws docId update) of
        Inl e \<Rightarrow> Inl e | Inr response \<Rightarrow> push_response response)"
  by (simp add: push_request_def pull_request_def push_def SEND_TIMEOUT_def)

text \<open>
  A request that is never acknowledged makes both calls fail with the rejection of
  the channel.
\<close>

lemma timeout_propagates:
  "pull encode decode never_acknowledges ws docId st = Inl TimeoutError"
  "push encode never_acknowledges ws docId update = Inl TimeoutError"
  by (simp_all add: pull_def push_def never_acknowledges_def)

section \<open>The static client\<close>

text \<open>
  Claim C9: \<^verbatim>\<open>pull(docId)\<close> of the static client fetches the path of the bound
  collection and the document; on a response with a status from 200 to 299 it
  returns the whole body as data, with no state vector, and on every other response
  it returns \<^verbatim>\<open>null\<close>; \<^verbatim>\<open>push\<close> and \<^verbatim>\<open>subscribe\<close> fail with the error
  \<^verbatim>\<open>Method not implemented.\<close>
\<close>

theorem static_client:
  "(fetchWithTraceReport (''/api/workspaces/'' @ ws @ ''/docs/'' @ docId) \<lparr>priority = ''high''\<rparr>
        = Inr response
      \<and> 200 \<le> status response \<and> status response \<le> 299
      \<longrightarrow> static_pull fetchWithTraceReport ws docId
            = Inr (Some \<lparr>data = body response, state = None\<rparr>))
   \<and> (fetchWithTraceReport (''/api/workspaces/'' @ ws @ ''/docs/'' @ docId) \<lparr>priority = ''high''\<rparr>
        = Inr response
      \<and> \<not> (200 \<le> status response \<and> status response \<le> 299)
      \<longrightarrow> static_pull fetchWithTraceReport ws docId = Inr None)
   \<and> static_push = Inl (Error ''Method not implemented.'')
   \<and> static_subscribe = Inl (Error ''Method not implemented.'')"
  by (simp add: static_pull_def static_url_def ok_def static_push_def static_subscribe_def)

theorem static_client_witness:
  "static_pull (responds \<lparr>status = 200, body = [1, 2, 3]\<rparr>) ''workspace'' ''doc''
     = Inr (Some \<lparr>data = [1, 2, 3], state = None\<rparr>)
   \<and> static_pull (responds \<lparr>status = 404, body = []\<rparr>) ''workspace'' ''doc'' = Inr None
   \<and> static_pull (responds \<lparr>status = 500, body = [7]\<rparr>) ''workspace'' ''doc'' = Inr None"
  using static_client [of "responds \<lparr>status = 200, body = [1, 2, 3]\<rparr>" "''workspace''" "''doc''"
                          "\<lparr>status = 200, body = [1, 2, 3]\<rparr>"]
        static_client [of "responds \<lparr>status = 404, body = []\<rparr>" "''workspace''" "''doc''"
                          "\<lparr>status = 404, body = []\<rparr>"]
        static_client [of "responds \<lparr>status = 500, body = [7]\<rparr>" "''workspace''" "''doc''"
                          "\<lparr>status = 500, body = [7]\<rparr>"]
  by (simp add: responds_def)

section \<open>What an event does\<close>

text \<open>
  An incoming event leaves the state as it is but for the effects its handlers add,
  and, for \<^verbatim>\<open>disconnect\<close>, the handlers they detach.
\<close>

lemma forEach_eq:
  "forEach decode n cb docId us w =
     w\<lparr>trace := trace w @ map (OnUpdate n cb docId) (decoded decode us)\<rparr>"
proof (induction us arbitrary: w)
  case Nil
  show ?case by simp
next
  case (Cons u us)
  show ?case by (cases "decode u") (simp_all add: Cons.IH)
qed

lemma handleUpdate_eq:
  "handleUpdate decode n ws cb m w =
     w\<lparr>trace := trace w @ update_calls decode m (HandleUpdate n ws cb)\<rparr>"
  by (simp add: handleUpdate_def update_calls_def forEach_eq)

lemma decoded_all: "map decode us = map Inr ds \<Longrightarrow> decoded decode us = ds"
proof (induction us arbitrary: ds)
  case Nil
  then show ?case by simp
next
  case (Cons u us)
  then obtain d ds' where "ds = d # ds'" "decode u = Inr d" "map decode us = map Inr ds'"
    by (cases ds) auto
  with Cons.IH show ?case by simp
qed

lemma foldl_broadcast:
  "foldl (\<lambda>w' fn. call_handler decode fn (Broadcast m) w') w hs =
     w\<lparr>trace := trace w @ concat (map (update_calls decode m) hs)\<rparr>"
proof (induction hs arbitrary: w)
  case Nil
  show ?case by simp
next
  case (Cons h hs)
  show ?case
    by (cases h) (simp_all add: Cons.IH handleUpdate_eq update_calls_def)
qed

lemma dispatch_broadcast:
  "dispatch decode ev (Broadcast m) w =
     w\<lparr>trace := trace w @ concat (map (update_calls decode m) (callbacks w ev))\<rparr>"
  by (simp add: dispatch_def foldl_broadcast)

lemma foldl_connect:
  "foldl (\<lambda>w' fn. call_handler decode fn NoArgument w') w hs =
     w\<lparr>trace := trace w @ concat (map connect_calls hs)\<rparr>"
proof (induction hs arbitrary: w)
  case Nil
  show ?case by simp
next
  case (Cons h hs)
  show ?case
    by (cases h) (simp_all add: Cons.IH handleConnect_def socket_emit_def connect_calls_def)
qed

lemma dispatch_connect:
  "dispatch decode ev NoArgument w =
     w\<lparr>trace := trace w @ concat (map connect_calls (callbacks w ev))\<rparr>"
  by (simp add: dispatch_def foldl_connect)

lemma foldl_disconnect:
  "foldl (\<lambda>w' fn. call_handler decode fn (Reason r) w') w hs =
     w\<lparr>callbacks := (callbacks w)(''server-updates'' :=
          foldl (\<lambda>l h. remove1 h l) (callbacks w ''server-updates'') (concat (map detached hs))),
       trace := trace w @ concat (map (disconnect_calls r) hs)\<rparr>"
proof (induction hs arbitrary: w)
  case Nil
  show ?case by simp
next
  case (Cons h hs)
  show ?case
    by (cases h)
       (auto simp add: Cons.IH handleDisconnect_def socket_off_def disconnect_calls_def detached_def
             intro!: world.equality)
qed

lemma dispatch_disconnect:
  "dispatch decode ev (Reason r) w =
     w\<lparr>callbacks := (callbacks w)(''server-updates'' :=
          foldl (\<lambda>l h. remove1 h l) (callbacks w ''server-updates'')
            (concat (map detached (callbacks w ev)))),
       trace := trace w @ concat (map (disconnect_calls r) (callbacks w ev))\<rparr>"
  by (simp add: dispatch_def foldl_disconnect)

lemma since_append: "trace w' = trace w @ t \<Longrightarrow> since w w' = t"
  by (simp add: since_def)

lemma trace_connect:
  "trace (step decode ws Connect w) = trace w @ concat (map connect_calls (callbacks w ''connect''))"
  by (simp add: dispatch_connect)

lemma trace_disconnect:
  "trace (step decode ws (Disconnect r) w) =
     trace w @ concat (map (disconnect_calls r) (callbacks w ''disconnect''))"
  by (simp add: dispatch_disconnect)

lemma trace_broadcast:
  "trace (step decode ws (ServerUpdates m) w) =
     trace w @ concat (map (update_calls decode m) (callbacks w ''server-updates''))"
  by (simp add: dispatch_broadcast)

lemma trace_subscribe:
  "trace (step decode ws (Subscribe cb dc) w) =
     trace w @ [On ''server-updates'' (HandleUpdate (length (handles w)) ws cb),
                On ''disconnect'' (HandleDisconnect (length (handles w))
                                     (HandleUpdate (length (handles w)) ws cb) dc)]"
  by (simp add: subscribe_def socket_on_def Let_def)

lemma trace_unsubscribe:
  "trace (step decode ws (Unsubscribe n) w) =
     trace w @ (if n < length (handles w)
                then [Off ''server-updates'' (fst (handles w ! n)),
                      Off ''disconnect'' (snd (handles w ! n))]
                else [])"
  by (simp add: unsubscribe_def socket_off_def)

lemma trace_cleanup:
  "trace (step decode ws Cleanup w) =
     trace w @ [Emit ''client-leave-sync'' ws, Off ''connect'' (HandleConnect ws)]"
  by (simp add: cleanup_def socket_off_def socket_emit_def)

lemma trace_step: "\<exists>t. trace (step decode ws e w) = trace w @ t"
  by (cases e)
     (simp_all only: trace_connect trace_disconnect trace_broadcast trace_subscribe
        trace_unsubscribe trace_cleanup append_same_eq same_append_eq simp_thms)

lemma trace_run: "\<exists>t. trace (run decode ws evs w) = trace w @ t"
proof (induction evs arbitrary: w)
  case Nil
  show ?case by simp
next
  case (Cons e evs)
  obtain t1 where 1: "trace (step decode ws e w) = trace w @ t1"
    using trace_step by blast
  obtain t2 where 2: "trace (run decode ws evs (step decode ws e w)) = trace (step decode ws e w) @ t2"
    using Cons.IH by blast
  from 1 2 show ?case by simp
qed

lemma filter_since:
  assumes "filter P (trace (run decode ws evs w)) = filter P (trace w)"
  shows "filter P (since w (run decode ws evs w)) = []"
proof -
  obtain t where t: "trace (run decode ws evs w) = trace w @ t"
    using trace_run by blast
  with assms have "filter P t = []" by simp
  with t show ?thesis by (simp add: since_append)
qed

lemma since_connect:
  "since w (step decode ws Connect w) = concat (map connect_calls (callbacks w ''connect''))"
  by (rule since_append) (rule trace_connect)

lemma since_disconnect:
  "since w (step decode ws (Disconnect r) w) =
     concat (map (disconnect_calls r) (callbacks w ''disconnect''))"
  by (rule since_append) (rule trace_disconnect)

lemma since_broadcast:
  "since w (step decode ws (ServerUpdates m) w) =
     concat (map (update_calls decode m) (callbacks w ''server-updates''))"
  by (rule since_append) (rule trace_broadcast)


lemma updates_connect [simp]:
  "callbacks (step decode ws Connect w) ev = callbacks w ev"
  by (simp add: dispatch_connect)

lemma updates_broadcast:
  "callbacks (step decode ws (ServerUpdates m) w) ev = callbacks w ev"
  by (simp add: dispatch_broadcast)

lemma updates_disconnect:
  "callbacks (step decode ws (Disconnect r) w) ''server-updates'' =
     foldl (\<lambda>l h. remove1 h l) (callbacks w ''server-updates'')
       (concat (map detached (callbacks w ''disconnect'')))"
  "callbacks (step decode ws (Disconnect r) w) ''disconnect'' = callbacks w ''disconnect''"
  by (simp_all add: dispatch_disconnect)

lemma updates_subscribe:
  "callbacks (step decode ws (Subscribe cb dc) w) ''server-updates'' =
     callbacks w ''server-updates'' @ [HandleUpdate (length (handles w)) ws cb]"
  "callbacks (step decode ws (Subscribe cb dc) w) ''disconnect'' =
     callbacks w ''disconnect''
     @ [HandleDisconnect (length (handles w)) (HandleUpdate (length (handles w)) ws cb) dc]"
  by (simp_all add: subscribe_def socket_on_def Let_def)

lemma updates_unsubscribe:
  "n < length (handles w) \<Longrightarrow>
     callbacks (step decode ws (Unsubscribe n) w) ''server-updates'' =
       remove1 (fst (handles w ! n)) (callbacks w ''server-updates'')"
  "n < length (handles w) \<Longrightarrow>
     callbacks (step decode ws (Unsubscribe n) w) ''disconnect'' =
       remove1 (snd (handles w ! n)) (callbacks w ''disconnect'')"
  "\<not> n < length (handles w) \<Longrightarrow> step decode ws (Unsubscribe n) w = w"
  by (simp_all add: unsubscribe_def socket_off_def)

lemma updates_cleanup:
  "callbacks (step decode ws Cleanup w) ''server-updates'' = callbacks w ''server-updates''"
  "callbacks (step decode ws Cleanup w) ''disconnect'' = callbacks w ''disconnect''"
  by (simp_all add: cleanup_def socket_off_def socket_emit_def)

lemma handles_step:
  "handles (step decode ws e w) =
     (case e of
        Subscribe cb dc \<Rightarrow>
          handles w @ [(HandleUpdate (length (handles w)) ws cb,
                        HandleDisconnect (length (handles w))
                          (HandleUpdate (length (handles w)) ws cb) dc)]
      | _ \<Rightarrow> handles w)"
  by (cases e)
     (simp_all add: dispatch_connect dispatch_disconnect dispatch_broadcast subscribe_def
        socket_on_def unsubscribe_def socket_off_def cleanup_def socket_emit_def Let_def)

lemma handles_step_nth:
  "n < length (handles w) \<Longrightarrow>
     n < length (handles (step decode ws e w)) \<and> handles (step decode ws e w) ! n = handles w ! n"
  by (cases e) (simp_all add: handles_step nth_append del: step.simps)

lemma handles_run_nth:
  "n < length (handles w) \<Longrightarrow>
     n < length (handles (run decode ws evs w)) \<and> handles (run decode ws evs w) ! n = handles w ! n"
proof (induction evs arbitrary: w)
  case Nil
  then show ?case by simp
next
  case (Cons e evs)
  from handles_step_nth [OF Cons.prems, of decode ws e]
  have 1: "n < length (handles (step decode ws e w))"
    and 2: "handles (step decode ws e w) ! n = handles w ! n" by simp_all
  from Cons.IH [OF 1] 2 show ?case by simp
qed

section \<open>The invariant holds in every state a client reaches\<close>

lemma set_foldl_remove1_subset: "set (foldl (\<lambda>l h. remove1 h l) xs ys) \<subseteq> set xs"
proof (induction ys arbitrary: xs)
  case Nil
  show ?case by simp
next
  case (Cons y ys)
  have "set (foldl (\<lambda>l h. remove1 h l) (remove1 y xs) ys) \<subseteq> set (remove1 y xs)"
    by (rule Cons.IH)
  also have "\<dots> \<subseteq> set xs" by (rule set_remove1_subset)
  finally show ?case by simp
qed

lemma distinct_foldl_remove1:
  "distinct xs \<Longrightarrow> distinct (foldl (\<lambda>l h. remove1 h l) xs ys)"
  by (induction ys arbitrary: xs) simp_all

lemma set_foldl_remove1:
  "distinct xs \<Longrightarrow> set (foldl (\<lambda>l h. remove1 h l) xs ys) = set xs - set ys"
  by (induction ys arbitrary: xs) auto

lemma foldl_remove1_Nil: "foldl (\<lambda>l h. remove1 h l) [] ys = []"
  by (induction ys) simp_all

lemma wf_socket: "well_formed ws (socket c)"
  by (simp add: well_formed_def socket_def)

lemma wf_constructor: "well_formed ws w \<Longrightarrow> well_formed ws (constructor ws w)"
  by (simp add: well_formed_def constructor_def socket_on_def socket_emit_def socket_connect_def
        cleanupService_add_def Let_def)

lemma wf_client: "well_formed ws (client ws c)"
  by (simp add: client_def wf_constructor wf_socket)

lemma wf_connect: "well_formed ws w \<Longrightarrow> well_formed ws (step decode ws Connect w)"
  by (simp add: well_formed_def dispatch_connect)

lemma wf_broadcast: "well_formed ws w \<Longrightarrow> well_formed ws (step decode ws (ServerUpdates m) w)"
  by (simp add: well_formed_def dispatch_broadcast)

lemma wf_cleanup: "well_formed ws w \<Longrightarrow> well_formed ws (step decode ws Cleanup w)"
  by (simp add: well_formed_def cleanup_def socket_off_def socket_emit_def)

lemma wf_disconnect:
  assumes "well_formed ws w"
  shows "well_formed ws (step decode ws (Disconnect r) w)"
proof -
  let ?ups = "foldl (\<lambda>l h. remove1 h l) (callbacks w ''server-updates'')
                (concat (map detached (callbacks w ''disconnect'')))"
  have sub: "set ?ups \<subseteq> set (callbacks w ''server-updates'')"
    by (rule set_foldl_remove1_subset)
  have dis: "distinct ?ups"
    using assms by (simp add: well_formed_def distinct_foldl_remove1)
  show ?thesis
    using assms sub dis by (simp add: well_formed_def dispatch_disconnect) blast
qed

lemma closure_pair_fst_inj:
  "closure_pair ws n h \<Longrightarrow> closure_pair ws k h' \<Longrightarrow> fst h = fst h' \<Longrightarrow> n = k"
  by (auto simp: closure_pair_def)

lemma closure_pair_snd_inj:
  "closure_pair ws n h \<Longrightarrow> closure_pair ws k h' \<Longrightarrow> snd h = snd h' \<Longrightarrow> n = k"
  by (auto simp: closure_pair_def)

lemma wf_fst_index:
  assumes "well_formed ws w" "h \<in> set (callbacks w ''server-updates'')"
  shows "\<exists>n < length (handles w). fst (handles w ! n) = h"
proof -
  from assms have "h \<in> fst ` set (handles w)" by (auto simp: well_formed_def)
  then obtain p where "p \<in> set (handles w)" "fst p = h" by auto
  then show ?thesis by (metis in_set_conv_nth)
qed

lemma wf_snd_index:
  assumes "well_formed ws w" "h \<in> set (callbacks w ''disconnect'')"
  shows "\<exists>n < length (handles w). snd (handles w ! n) = h"
proof -
  from assms have "h \<in> snd ` set (handles w)" by (auto simp: well_formed_def)
  then obtain p where "p \<in> set (handles w)" "snd p = h" by auto
  then show ?thesis by (metis in_set_conv_nth)
qed

lemma wf_subscribe:
  assumes "well_formed ws w"
  shows "well_formed ws (step decode ws (Subscribe cb dc) w)"
proof -
  let ?n = "length (handles w)"
  let ?hu = "HandleUpdate ?n ws cb"
  let ?hd = "HandleDisconnect ?n ?hu dc"
  have old: "fst p \<noteq> ?hu \<and> snd p \<noteq> ?hd" if "p \<in> set (handles w)" for p
  proof -
    from that obtain k where k: "k < ?n" "handles w ! k = p"
      by (auto simp: in_set_conv_nth)
    with assms have "closure_pair ws k p" by (auto simp: well_formed_def)
    with k show ?thesis by (auto simp: closure_pair_def)
  qed
  have sub_u: "set (callbacks w ''server-updates'') \<subseteq> fst ` set (handles w)"
    and sub_d: "set (callbacks w ''disconnect'') \<subseteq> snd ` set (handles w)"
    using assms by (simp_all add: well_formed_def)
  have fresh_u: "?hu \<notin> set (callbacks w ''server-updates'')"
  proof
    assume "?hu \<in> set (callbacks w ''server-updates'')"
    with sub_u obtain p where "p \<in> set (handles w)" "fst p = ?hu" by auto
    with old show False by blast
  qed
  have fresh_d: "?hd \<notin> set (callbacks w ''disconnect'')"
  proof
    assume "?hd \<in> set (callbacks w ''disconnect'')"
    with sub_d obtain p where "p \<in> set (handles w)" "snd p = ?hd" by auto
    with old show False by blast
  qed
  let ?w = "subscribe ws cb dc w"
  have u: "callbacks ?w ''server-updates'' = callbacks w ''server-updates'' @ [?hu]"
    and d: "callbacks ?w ''disconnect'' = callbacks w ''disconnect'' @ [?hd]"
    and hs: "handles ?w = handles w @ [(?hu, ?hd)]"
    by (simp_all add: subscribe_def socket_on_def Let_def)
  have 1: "\<forall>k < length (handles ?w). closure_pair ws k (handles ?w ! k)"
    using assms by (auto simp: hs well_formed_def nth_append closure_pair_def less_Suc_eq)
  have 2: "distinct (callbacks ?w ''server-updates'')"
    using assms fresh_u by (simp add: u well_formed_def)
  have 3: "distinct (callbacks ?w ''disconnect'')"
    using assms fresh_d by (simp add: d well_formed_def)
  have 4: "set (callbacks ?w ''server-updates'') \<subseteq> fst ` set (handles ?w)"
    using sub_u by (auto simp: u hs)
  have 5: "set (callbacks ?w ''disconnect'') \<subseteq> snd ` set (handles ?w)"
    using sub_d by (auto simp: d hs)
  have 6: "\<forall>h \<in> set (handles ?w). fst h \<in> set (callbacks ?w ''server-updates'')
             \<longrightarrow> snd h \<in> set (callbacks ?w ''disconnect'')"
  proof
    fix h assume "h \<in> set (handles ?w)"
    then consider "h = (?hu, ?hd)" | "h \<in> set (handles w)" by (auto simp: hs)
    then show "fst h \<in> set (callbacks ?w ''server-updates'')
                 \<longrightarrow> snd h \<in> set (callbacks ?w ''disconnect'')"
    proof cases
      case 1
      then show ?thesis by (simp add: d)
    next
      case 2
      with old have "fst h \<noteq> ?hu" by blast
      with assms 2 show ?thesis by (auto simp: u d well_formed_def)
    qed
  qed
  from 1 2 3 4 5 6 have "well_formed ws ?w" unfolding well_formed_def by blast
  then show ?thesis by simp
qed

lemma wf_unsubscribe:
  assumes "well_formed ws w"
  shows "well_formed ws (step decode ws (Unsubscribe n) w)"
proof (cases "n < length (handles w)")
  case False
  with assms show ?thesis by simp
next
  case True
  obtain hu hd where h: "handles w ! n = (hu, hd)" by (cases "handles w ! n")
  have keep: "snd p \<in> set (remove1 hd (callbacks w ''disconnect''))"
    if p: "p \<in> set (handles w)" and u: "fst p \<in> set (remove1 hu (callbacks w ''server-updates''))"
    for p
  proof -
    from assms have du: "distinct (callbacks w ''server-updates'')" by (simp add: well_formed_def)
    from u du have in_u: "fst p \<in> set (callbacks w ''server-updates'')" and ne: "fst p \<noteq> hu"
      by auto
    from assms p in_u have in_d: "snd p \<in> set (callbacks w ''disconnect'')"
      by (auto simp: well_formed_def)
    from p obtain k where k: "k < length (handles w)" "handles w ! k = p"
      by (auto simp: in_set_conv_nth)
    from ne h k have "k \<noteq> n" by auto
    moreover from assms k have "closure_pair ws k p" by (auto simp: well_formed_def)
    moreover from assms True h have "closure_pair ws n (hu, hd)" by (auto simp: well_formed_def)
    ultimately have "snd p \<noteq> hd" using closure_pair_snd_inj by fastforce
    with in_d show ?thesis by simp
  qed
  have sub_u: "set (remove1 hu (callbacks w ''server-updates'')) \<subseteq> fst ` set (handles w)"
    using assms set_remove1_subset [of hu "callbacks w ''server-updates''"] by (auto simp: well_formed_def)
  have sub_d: "set (remove1 hd (callbacks w ''disconnect'')) \<subseteq> snd ` set (handles w)"
    using assms set_remove1_subset [of hd "callbacks w ''disconnect''"] by (auto simp: well_formed_def)
  show ?thesis
    using assms True h keep sub_u sub_d
    by (simp add: well_formed_def unsubscribe_def socket_off_def)
qed

lemma wf_step: "well_formed ws w \<Longrightarrow> well_formed ws (step decode ws e w)"
  by (cases e)
     (simp_all only: wf_connect wf_disconnect wf_broadcast wf_subscribe wf_unsubscribe wf_cleanup)

lemma wf_run: "well_formed ws w \<Longrightarrow> well_formed ws (run decode ws evs w)"
  by (induction evs arbitrary: w) (simp_all add: wf_step)

lemma wf_reachable: "well_formed ws (run decode ws evs (client ws c))"
  by (rule wf_run) (rule wf_client)

lemma wf_update_handler:
  assumes "well_formed ws w" "h \<in> set (callbacks w ''server-updates'')"
  shows "\<exists>n cb. n < length (handles w) \<and> h = HandleUpdate n ws cb \<and> fst (handles w ! n) = h"
proof -
  from wf_fst_index [OF assms] obtain n where n: "n < length (handles w)" "fst (handles w ! n) = h"
    by blast
  with assms(1) have "closure_pair ws n (handles w ! n)" by (simp add: well_formed_def)
  with n show ?thesis by (auto simp: closure_pair_def)
qed

lemma wf_disconnect_handler:
  assumes "well_formed ws w" "h \<in> set (callbacks w ''disconnect'')"
  shows "\<exists>n cb dc. n < length (handles w) \<and> h = HandleDisconnect n (HandleUpdate n ws cb) dc
           \<and> handles w ! n = (HandleUpdate n ws cb, h)"
proof -
  from wf_snd_index [OF assms] obtain n where n: "n < length (handles w)" "snd (handles w ! n) = h"
    by blast
  with assms(1) have "closure_pair ws n (handles w ! n)" by (simp add: well_formed_def)
  with n show ?thesis by (auto simp: closure_pair_def)
qed

lemma wf_handle:
  assumes "well_formed ws w" "n < length (handles w)"
  shows "\<exists>cb dc. handles w ! n = (HandleUpdate n ws cb, HandleDisconnect n (HandleUpdate n ws cb) dc)"
  using assms by (simp add: well_formed_def closure_pair_def)

lemma wf_disconnect_unique:
  assumes "well_formed ws w" "HandleDisconnect n hu dc \<in> set (callbacks w ''disconnect'')"
  shows "n < length (handles w) \<and> snd (handles w ! n) = HandleDisconnect n hu dc"
proof -
  from wf_disconnect_handler [OF assms]
  obtain k cb dc' where k: "k < length (handles w)"
      "HandleDisconnect n hu dc = HandleDisconnect k (HandleUpdate k ws cb) dc'"
      "handles w ! k = (HandleUpdate k ws cb, HandleDisconnect n hu dc)"
    by blast
  from k(2) have "k = n" by simp
  with k(1,3) show ?thesis by simp
qed

section \<open>Broadcasts\<close>

lemma update_calls_other:
  "\<forall>h \<in> set hs. \<forall>ws cb. h \<noteq> HandleUpdate n ws cb \<Longrightarrow>
     filter (update_call_of n) (concat (map (update_calls decode m) hs)) = []"
proof (induction hs)
  case Nil
  show ?case by simp
next
  case (Cons h hs)
  have "filter (update_call_of n) (update_calls decode m h) = []"
  proof (cases h)
    case (HandleUpdate k ws cb)
    with Cons.prems have "k \<noteq> n" by auto
    with HandleUpdate show ?thesis by (simp add: update_calls_def)
  qed (simp_all add: update_calls_def)
  with Cons show ?case by simp
qed

lemma update_calls_own:
  "filter (update_call_of n) (update_calls decode m (HandleUpdate n ws cb)) =
     update_calls decode m (HandleUpdate n ws cb)"
  by (simp add: update_calls_def)

lemma update_calls_one:
  assumes "distinct hs" "HandleUpdate n ws cb \<in> set hs"
    and "\<forall>ws' cb'. HandleUpdate n ws' cb' \<in> set hs \<longrightarrow> ws' = ws \<and> cb' = cb"
  shows "filter (update_call_of n) (concat (map (update_calls decode m) hs)) =
           update_calls decode m (HandleUpdate n ws cb)"
proof -
  from assms(2) obtain xs ys where hs: "hs = xs @ HandleUpdate n ws cb # ys"
    by (auto simp: in_set_conv_decomp)
  with assms(1) have nin: "HandleUpdate n ws cb \<notin> set xs" "HandleUpdate n ws cb \<notin> set ys"
    by auto
  have "\<forall>h \<in> set xs. \<forall>ws' cb'. h \<noteq> HandleUpdate n ws' cb'"
    using assms(3) nin hs by auto
  then have x: "filter (update_call_of n) (concat (map (update_calls decode m) xs)) = []"
    by (rule update_calls_other)
  have "\<forall>h \<in> set ys. \<forall>ws' cb'. h \<noteq> HandleUpdate n ws' cb'"
    using assms(3) nin hs by auto
  then have y: "filter (update_call_of n) (concat (map (update_calls decode m) ys)) = []"
    by (rule update_calls_other)
  show ?thesis
    by (simp add: hs x y update_calls_own)
qed

lemma active_calls:
  assumes "well_formed ws w" "active n w" "fst (handles w ! n) = HandleUpdate n ws cb"
  shows "filter (update_call_of n) (since w (step decode ws (ServerUpdates m) w)) =
           update_calls decode m (HandleUpdate n ws cb)"
proof -
  let ?hs = "callbacks w ''server-updates''"
  from assms(2,3) have mem: "HandleUpdate n ws cb \<in> set ?hs"
    by (simp add: active_def)
  have uniq: "\<forall>ws' cb'. HandleUpdate n ws' cb' \<in> set ?hs \<longrightarrow> ws' = ws \<and> cb' = cb"
  proof (intro allI impI)
    fix ws' cb' assume "HandleUpdate n ws' cb' \<in> set ?hs"
    from wf_update_handler [OF assms(1) this]
    obtain k cb'' where k: "HandleUpdate n ws' cb' = HandleUpdate k ws cb''"
        "fst (handles w ! k) = HandleUpdate n ws' cb'"
      by blast
    from k(1) have "k = n" by simp
    with k(2) assms(3) have "HandleUpdate n ws' cb' = HandleUpdate n ws cb" by simp
    then show "ws' = ws \<and> cb' = cb" by simp
  qed
  have dist: "distinct ?hs" using assms(1) by (simp add: well_formed_def)
  show ?thesis
    unfolding since_broadcast by (rule update_calls_one [OF dist mem uniq])
qed

lemma inactive_calls:
  assumes "well_formed ws w" "n < length (handles w)"
    and "fst (handles w ! n) \<notin> set (callbacks w ''server-updates'')"
  shows "filter (update_call_of n) (since w (step decode ws (ServerUpdates m) w)) = []"
proof -
  let ?hs = "callbacks w ''server-updates''"
  have "\<forall>h \<in> set ?hs. \<forall>ws' cb. h \<noteq> HandleUpdate n ws' cb"
  proof (intro ballI allI notI)
    fix h ws' cb assume h: "h \<in> set ?hs" "h = HandleUpdate n ws' cb"
    from wf_update_handler [OF assms(1) h(1)] h(2) have "fst (handles w ! n) = h" by auto
    with h(1) assms(3) show False by simp
  qed
  then show ?thesis
    unfolding since_broadcast by (rule update_calls_other)
qed

lemma foreign_broadcast:
  assumes "well_formed ws w" "workspaceId m \<noteq> ws"
  shows "since w (step decode ws (ServerUpdates m) w) = []"
proof -
  have "update_calls decode m h = []" if "h \<in> set (callbacks w ''server-updates'')" for h
    using wf_update_handler [OF assms(1) that] assms(2) by (auto simp: update_calls_def)
  then show ?thesis
    unfolding since_broadcast by simp
qed

text \<open>
  Claim C3 says that a broadcast for the client's collection makes an active
  subscription call its callback once for every entry of the update list. The
  source decodes each entry inside the loop and catches nothing: at an entry the
  decoder rejects the loop ends, and the entries after it are not delivered.
\<close>

theorem broadcast_undecodable_entry_counterexample:
  "filter (update_call_of 0)
     (since (run base64ToUint8Array ''workspace'' [Subscribe 7 8] (client ''workspace'' True))
        (step base64ToUint8Array ''workspace''
           (ServerUpdates
              \<lparr>workspaceId = ''workspace'', guid = ''doc'', updates = [''AQI='', ''!!!!'', ''Aw=='']\<rparr>)
           (run base64ToUint8Array ''workspace'' [Subscribe 7 8] (client ''workspace'' True))))
   = [OnUpdate 0 7 ''doc'' [1, 2]]"
proof -
  have d: "base64ToUint8Array ''AQI='' = Inr [1, 2]" "base64ToUint8Array ''Aw=='' = Inr [3]"
    "base64ToUint8Array ''!!!!'' = Inl InvalidCharacterError"
    by (simp_all add: base64_defs)
  show ?thesis
    by (simp add: client_defs d)
qed

text \<open>
  Claim C3, as the source has it: in every state a client reaches, for every
  subscription \<open>n\<close> that is active there, made with the callback \<open>cb\<close>, and every
  broadcast \<open>m\<close>: when the collection id of \<open>m\<close> differs from the client's, no
  subscription calls its callback; when it is the client's, subscription \<open>n\<close>
  calls \<open>cb\<close> once for each entry of the update list of \<open>m\<close> that comes before
  the first entry the decoder rejects, in the order of the list, each time with the
  document id of \<open>m\<close> and the decoded entry; so once for each entry of the list
  when the decoder accepts them all.
\<close>

theorem broadcast_delivery:
  assumes "w = run decode ws evs (client ws c)"
    and "active n w"
    and "fst (handles w ! n) = HandleUpdate n ws cb"
  shows "(workspaceId m \<noteq> ws \<longrightarrow>
            filter is_update_call (since w (step decode ws (ServerUpdates m) w)) = [])
       \<and> (workspaceId m = ws \<longrightarrow>
            filter (update_call_of n) (since w (step decode ws (ServerUpdates m) w)) =
              map (OnUpdate n cb (guid m)) (decoded decode (updates m)))
       \<and> (workspaceId m = ws \<and> map decode (updates m) = map Inr ds \<longrightarrow>
            filter (update_call_of n) (since w (step decode ws (ServerUpdates m) w)) =
              map (OnUpdate n cb (guid m)) ds)"
proof -
  have wf: "well_formed ws w" unfolding assms(1) by (rule wf_reachable)
  have 1: "since w (step decode ws (ServerUpdates m) w) = []" if "workspaceId m \<noteq> ws"
    using wf that by (rule foreign_broadcast)
  have 2: "filter (update_call_of n) (since w (step decode ws (ServerUpdates m) w)) =
             map (OnUpdate n cb (guid m)) (decoded decode (updates m))" if "workspaceId m = ws"
    using active_calls [OF wf assms(2,3), of decode m] that by (simp add: update_calls_def)
  have 3: "filter (update_call_of n) (since w (step decode ws (ServerUpdates m) w)) =
             map (OnUpdate n cb (guid m)) ds"
    if "workspaceId m = ws" "map decode (updates m) = map Inr ds"
    using 2 [OF that(1)] decoded_all [OF that(2)] by simp
  from 1 2 3 show ?thesis by simp
qed

theorem broadcast_delivery_witness:
  "active 0 (run base64ToUint8Array ''workspace'' [Subscribe 7 8] (client ''workspace'' True))
   \<and> filter (update_call_of 0)
       (since (run base64ToUint8Array ''workspace'' [Subscribe 7 8] (client ''workspace'' True))
          (step base64ToUint8Array ''workspace''
             (ServerUpdates \<lparr>workspaceId = ''workspace'', guid = ''doc'', updates = [''AQI='', ''Aw=='']\<rparr>)
             (run base64ToUint8Array ''workspace'' [Subscribe 7 8] (client ''workspace'' True))))
     = [OnUpdate 0 7 ''doc'' [1, 2], OnUpdate 0 7 ''doc'' [3]]
   \<and> filter is_update_call
       (since (run base64ToUint8Array ''workspace'' [Subscribe 7 8] (client ''workspace'' True))
          (step base64ToUint8Array ''workspace''
             (ServerUpdates \<lparr>workspaceId = ''other'', guid = ''doc'', updates = [''AQI='', ''Aw=='']\<rparr>)
             (run base64ToUint8Array ''workspace'' [Subscribe 7 8] (client ''workspace'' True))))
     = []"
proof -
  have d: "base64ToUint8Array ''AQI='' = Inr [1, 2]" "base64ToUint8Array ''Aw=='' = Inr [3]"
    by (simp_all add: base64_defs)
  show ?thesis
    using broadcast_delivery [where decode = base64ToUint8Array and ws = "''workspace''"
            and evs = "[Subscribe 7 8]" and c = True and n = 0 and cb = 7
            and ds = "[[1, 2], [3]]"
            and w = "run base64ToUint8Array ''workspace'' [Subscribe 7 8] (client ''workspace'' True)"
            and m = "\<lparr>workspaceId = ''workspace'', guid = ''doc'', updates = [''AQI='', ''Aw=='']\<rparr>"]
          broadcast_delivery [where decode = base64ToUint8Array and ws = "''workspace''"
            and evs = "[Subscribe 7 8]" and c = True and n = 0 and cb = 7
            and w = "run base64ToUint8Array ''workspace'' [Subscribe 7 8] (client ''workspace'' True)"
            and m = "\<lparr>workspaceId = ''other'', guid = ''doc'', updates = [''AQI='', ''Aw=='']\<rparr>"]
    by (simp add: client_defs d)
qed

section \<open>The handshake\<close>

lemma connect_listener_step:
  assumes "callbacks w ''connect'' = [HandleConnect ws]" "e \<noteq> Cleanup"
  shows "callbacks (step decode ws e w) ''connect'' = [HandleConnect ws]"
proof (cases e)
  case Connect
  with assms show ?thesis by (simp add: dispatch_connect)
next
  case (Disconnect r)
  with assms show ?thesis by (simp add: dispatch_disconnect)
next
  case (ServerUpdates m)
  with assms show ?thesis by (simp add: dispatch_broadcast)
next
  case (Subscribe cb dc)
  with assms show ?thesis by (simp add: subscribe_def socket_on_def Let_def)
next
  case (Unsubscribe n)
  with assms show ?thesis by (simp add: unsubscribe_def socket_off_def)
next
  case Cleanup
  with assms show ?thesis by simp
qed

lemma connect_listener_run:
  "callbacks w ''connect'' = [HandleConnect ws] \<Longrightarrow> Cleanup \<notin> set evs \<Longrightarrow>
     callbacks (run decode ws evs w) ''connect'' = [HandleConnect ws]"
proof (induction evs arbitrary: w)
  case Nil
  then show ?case by simp
next
  case (Cons e evs)
  from Cons.prems have e: "e \<noteq> Cleanup" and evs: "Cleanup \<notin> set evs" by auto
  have "callbacks (step decode ws e w) ''connect'' = [HandleConnect ws]"
    using Cons.prems(1) e by (rule connect_listener_step)
  from Cons.IH [OF this evs] show ?case by simp
qed

lemma connect_listener_client: "callbacks (client ws c) ''connect'' = [HandleConnect ws]"
  by (simp add: client_defs)

lemma no_handshake_disconnect:
  "filter is_handshake (concat (map (disconnect_calls r) hs)) = []"
proof (induction hs)
  case Nil
  show ?case by simp
next
  case (Cons h hs)
  then show ?case by (cases h) (simp_all add: disconnect_calls_def)
qed

lemma no_handshake_broadcast:
  "filter is_handshake (concat (map (update_calls decode m) hs)) = []"
proof (induction hs)
  case Nil
  show ?case by simp
next
  case (Cons h hs)
  have "filter is_handshake (map f us) = []"
    if "\<And>u. \<not> is_handshake (f u)" for f :: "string \<Rightarrow> effect" and us
    using that by (induction us) simp_all
  with Cons show ?case by (cases h) (simp_all add: update_calls_def)
qed

lemma handshake_step:
  assumes "callbacks w ''connect'' = [HandleConnect ws]" "e \<noteq> Cleanup"
  shows "filter is_handshake (trace (step decode ws e w)) =
           filter is_handshake (trace w)
           @ replicate (count_list [e] Connect) (Emit ''client-handshake-sync'' ws)"
proof (cases e)
  case Connect
  with assms show ?thesis by (simp add: trace_connect connect_calls_def del: step.simps)
next
  case (Disconnect r)
  then show ?thesis by (simp add: trace_disconnect no_handshake_disconnect del: step.simps)
next
  case (ServerUpdates m)
  then show ?thesis by (simp add: trace_broadcast no_handshake_broadcast del: step.simps)
next
  case (Subscribe cb dc)
  then show ?thesis by (simp add: trace_subscribe del: step.simps)
next
  case (Unsubscribe n)
  then show ?thesis by (simp add: trace_unsubscribe del: step.simps)
next
  case Cleanup
  with assms show ?thesis by simp
qed

lemma handshake_run:
  "callbacks w ''connect'' = [HandleConnect ws] \<Longrightarrow> Cleanup \<notin> set evs \<Longrightarrow>
     filter is_handshake (trace (run decode ws evs w)) =
       filter is_handshake (trace w)
       @ replicate (count_list evs Connect) (Emit ''client-handshake-sync'' ws)"
proof (induction evs arbitrary: w)
  case Nil
  show ?case by simp
next
  case (Cons e evs)
  from Cons.prems have e: "e \<noteq> Cleanup" and evs: "Cleanup \<notin> set evs" by auto
  have l: "callbacks (step decode ws e w) ''connect'' = [HandleConnect ws]"
    using Cons.prems(1) e by (rule connect_listener_step)
  have "filter is_handshake (trace (run decode ws (e # evs) w)) =
          filter is_handshake (trace (step decode ws e w))
          @ replicate (count_list evs Connect) (Emit ''client-handshake-sync'' ws)"
    using Cons.IH [OF l evs] by simp
  also have "\<dots> = filter is_handshake (trace w)
          @ replicate (count_list [e] Connect) (Emit ''client-handshake-sync'' ws)
          @ replicate (count_list evs Connect) (Emit ''client-handshake-sync'' ws)"
    using handshake_step [OF Cons.prems(1) e, of decode] by simp
  also have "\<dots> = filter is_handshake (trace w)
          @ replicate (count_list (e # evs) Connect) (Emit ''client-handshake-sync'' ws)"
    by (simp add: replicate_append_same)
  finally show ?case .
qed

lemma count_cycles:
  "count_list (concat (replicate N [Disconnect r, Connect])) Connect = N"
  by (induction N) simp_all

text \<open>
  Claim C4: constructed on a connected socket, the client registers its connect
  handler and emits one handshake with the bound collection id; constructed on a
  disconnected socket, it emits none and calls \<^verbatim>\<open>connect()\<close>. After any events
  that do not include the cleanup, a connect event makes the client emit exactly one
  handshake; so the handshakes emitted up to any moment before the cleanup are the
  one of the construction, if there was one, and one for each connect event, and
  \<open>N\<close> cycles of disconnect and connect give \<open>N\<close> further handshakes.
\<close>

theorem handshake_on_connect:
  "trace (client ws True) =
     [On ''connect'' (HandleConnect ws), Emit ''client-handshake-sync'' ws, CleanupAdd]
   \<and> trace (client ws False) = [On ''connect'' (HandleConnect ws), SocketConnect, CleanupAdd]
   \<and> (Cleanup \<notin> set evs \<longrightarrow>
        since (run decode ws evs (client ws c))
          (step decode ws Connect (run decode ws evs (client ws c)))
        = [Emit ''client-handshake-sync'' ws])
   \<and> (Cleanup \<notin> set evs \<longrightarrow>
        filter is_handshake (trace (run decode ws evs (client ws c))) =
          replicate ((if c then 1 else 0) + count_list evs Connect)
            (Emit ''client-handshake-sync'' ws))
   \<and> filter is_handshake
        (trace (run decode ws (concat (replicate N [Disconnect reason, Connect])) (client ws c))) =
          replicate ((if c then 1 else 0) + N) (Emit ''client-handshake-sync'' ws)"
proof -
  have t: "trace (client ws True) =
             [On ''connect'' (HandleConnect ws), Emit ''client-handshake-sync'' ws, CleanupAdd]"
    and f: "trace (client ws False) = [On ''connect'' (HandleConnect ws), SocketConnect, CleanupAdd]"
    by (simp_all add: client_defs)
  have init: "filter is_handshake (trace (client ws c)) =
                replicate (if c then 1 else 0) (Emit ''client-handshake-sync'' ws)"
    by (cases c) (simp_all add: t f)
  have one: "since (run decode ws evs (client ws c))
               (step decode ws Connect (run decode ws evs (client ws c)))
             = [Emit ''client-handshake-sync'' ws]" if "Cleanup \<notin> set evs"
    unfolding since_connect
    by (simp add: connect_listener_run [OF connect_listener_client [of ws c] that] connect_calls_def)
  have all: "filter is_handshake (trace (run decode ws es (client ws c))) =
               replicate ((if c then 1 else 0) + count_list es Connect)
                 (Emit ''client-handshake-sync'' ws)" if "Cleanup \<notin> set es" for es
    using handshake_run [OF connect_listener_client [of ws c] that, where decode = decode]
    by (simp add: init replicate_add)
  have cyc: "Cleanup \<notin> set (concat (replicate N [Disconnect reason, Connect]))"
    by (induction N) simp_all
  have cycles: "filter is_handshake
        (trace (run decode ws (concat (replicate N [Disconnect reason, Connect])) (client ws c))) =
          replicate ((if c then 1 else 0) + N) (Emit ''client-handshake-sync'' ws)"
    using all [OF cyc] by (simp only: count_cycles)
  from t f one all [of evs] cycles show ?thesis by blast
qed

theorem handshake_on_connect_witness:
  "Cleanup \<notin> set [Disconnect ''transport close'', Connect, Disconnect ''ping timeout'', Connect]
   \<and> filter is_handshake
       (trace (run base64ToUint8Array ''workspace''
          [Disconnect ''transport close'', Connect, Disconnect ''ping timeout'', Connect]
          (client ''workspace'' False)))
     = [Emit ''client-handshake-sync'' ''workspace'', Emit ''client-handshake-sync'' ''workspace'']
   \<and> since (run base64ToUint8Array ''workspace''
          [Disconnect ''transport close'', Connect, Disconnect ''ping timeout'', Connect]
          (client ''workspace'' False))
        (step base64ToUint8Array ''workspace'' Connect
          (run base64ToUint8Array ''workspace''
            [Disconnect ''transport close'', Connect, Disconnect ''ping timeout'', Connect]
            (client ''workspace'' False)))
     = [Emit ''client-handshake-sync'' ''workspace'']"
  using handshake_on_connect [where decode = base64ToUint8Array and ws = "''workspace''"
          and c = False
          and evs = "[Disconnect ''transport close'', Connect, Disconnect ''ping timeout'', Connect]"]
  by simp

section \<open>Disconnection\<close>

lemma after_disconnect:
  assumes "well_formed ws w"
  shows "callbacks (step decode ws (Disconnect r) w) ''server-updates'' = []"
proof -
  let ?ups = "callbacks w ''server-updates''"
  let ?ds = "callbacks w ''disconnect''"
  have "hu \<in> set (concat (map detached ?ds))" if "hu \<in> set ?ups" for hu
  proof -
    from wf_update_handler [OF assms that]
    obtain k where k: "k < length (handles w)" "fst (handles w ! k) = hu" by blast
    from wf_handle [OF assms k(1)] obtain cb dc where
      p: "handles w ! k = (HandleUpdate k ws cb, HandleDisconnect k (HandleUpdate k ws cb) dc)"
      by blast
    from k(1) have "handles w ! k \<in> set (handles w)" by simp
    with assms that k(2) have "snd (handles w ! k) \<in> set ?ds"
      unfolding well_formed_def by blast
    with p k(2) have "HandleDisconnect k hu dc \<in> set ?ds" by simp
    then have "hu \<in> set (detached (HandleDisconnect k hu dc)) \<and> HandleDisconnect k hu dc \<in> set ?ds"
      by (simp add: detached_def)
    then show ?thesis by auto
  qed
  moreover have "distinct ?ups" using assms by (simp add: well_formed_def)
  ultimately have "set (foldl (\<lambda>l h. remove1 h l) ?ups (concat (map detached ?ds))) = {}"
    by (auto simp: set_foldl_remove1)
  then show ?thesis by (simp add: updates_disconnect del: step.simps)
qed

lemma no_update_connect:
  "filter is_update_call (concat (map connect_calls hs)) = []"
proof (induction hs)
  case Nil
  show ?case by simp
next
  case (Cons h hs)
  then show ?case by (cases h) (simp_all add: connect_calls_def)
qed

lemma no_update_disconnect:
  "filter is_update_call (concat (map (disconnect_calls r) hs)) = []"
proof (induction hs)
  case Nil
  show ?case by simp
next
  case (Cons h hs)
  then show ?case by (cases h) (simp_all add: disconnect_calls_def)
qed

lemma quiet_step:
  assumes "callbacks w ''server-updates'' = []" "\<not> is_subscribe e"
  shows "callbacks (step decode ws e w) ''server-updates'' = []
       \<and> filter is_update_call (trace (step decode ws e w)) = filter is_update_call (trace w)"
proof (cases e)
  case Connect
  then show ?thesis using assms(1) by (simp add: trace_connect no_update_connect del: step.simps)
next
  case (Disconnect r)
  then show ?thesis using assms(1)
    by (simp add: trace_disconnect no_update_disconnect updates_disconnect foldl_remove1_Nil
          del: step.simps)
next
  case (ServerUpdates m)
  then show ?thesis using assms(1) by (simp add: trace_broadcast updates_broadcast del: step.simps)
next
  case (Subscribe cb dc)
  with assms(2) show ?thesis by simp
next
  case (Unsubscribe n)
  then show ?thesis using assms(1)
    by (cases "n < length (handles w)")
       (simp_all add: trace_unsubscribe updates_unsubscribe del: step.simps)
next
  case Cleanup
  then show ?thesis using assms(1) by (simp add: trace_cleanup updates_cleanup del: step.simps)
qed

lemma quiet_run:
  "callbacks w ''server-updates'' = [] \<Longrightarrow> \<forall>e \<in> set evs. \<not> is_subscribe e \<Longrightarrow>
     callbacks (run decode ws evs w) ''server-updates'' = []
     \<and> filter is_update_call (trace (run decode ws evs w)) = filter is_update_call (trace w)"
proof (induction evs arbitrary: w)
  case Nil
  then show ?case by simp
next
  case (Cons e evs)
  from Cons.prems have e: "\<not> is_subscribe e" and evs: "\<forall>e \<in> set evs. \<not> is_subscribe e"
    by simp_all
  from quiet_step [OF Cons.prems(1) e, of decode ws]
  have 1: "callbacks (step decode ws e w) ''server-updates'' = []"
    and 2: "filter is_update_call (trace (step decode ws e w)) = filter is_update_call (trace w)"
    by simp_all
  from Cons.IH [OF 1 evs] 2 show ?case by simp
qed

lemma disconnect_calls_other:
  "\<forall>h \<in> set hs. \<forall>hu dc. h \<noteq> HandleDisconnect n hu dc \<Longrightarrow>
     filter (disconnect_call_of n) (concat (map (disconnect_calls r) hs)) = []"
proof (induction hs)
  case Nil
  show ?case by simp
next
  case (Cons h hs)
  have "filter (disconnect_call_of n) (disconnect_calls r h) = []"
  proof (cases h)
    case (HandleDisconnect k hu dc)
    with Cons.prems have "k \<noteq> n" by auto
    with HandleDisconnect show ?thesis by (simp add: disconnect_calls_def)
  qed (simp_all add: disconnect_calls_def)
  with Cons show ?case by simp
qed

text \<open>
  Claim C7: in every state a client reaches, when the socket disconnects while
  subscription \<open>n\<close> is active, the handler \<^verbatim>\<open>handleDisconnect\<close> of \<open>n\<close> first
  detaches the \<^verbatim>\<open>handleUpdate\<close> of \<open>n\<close> and then calls \<^verbatim>\<open>disconnect\<close> with
  the reason; this is the only call of \<^verbatim>\<open>disconnect\<close> that \<open>n\<close> makes for the
  event; and whatever happens afterwards, as long as \<^verbatim>\<open>subscribe\<close> is not
  called again, no broadcast leads to a call of any \<^verbatim>\<open>cb\<close>.
\<close>

theorem disconnect_during_subscription:
  assumes "w = run decode ws evs (client ws c)"
    and "active n w"
    and "snd (handles w ! n) = HandleDisconnect n hu dc"
    and "w' = step decode ws (Disconnect reason) w"
  shows "(\<exists>t1 t2. since w w' = t1 @ [Off ''server-updates'' (fst (handles w ! n)),
                                     OnDisconnect n dc reason] @ t2)
       \<and> filter (disconnect_call_of n) (since w w') = [OnDisconnect n dc reason]
       \<and> fst (handles w ! n) \<notin> set (callbacks w' ''server-updates'')
       \<and> ((\<forall>e \<in> set evs'. \<not> is_subscribe e) \<longrightarrow>
            filter is_update_call (since w' (run decode ws evs' w')) = [])"
proof -
  let ?ds = "callbacks w ''disconnect''"
  let ?hd = "HandleDisconnect n hu dc"
  have wf: "well_formed ws w" unfolding assms(1) by (rule wf_reachable)
  from assms(2) have n: "n < length (handles w)"
    and act: "fst (handles w ! n) \<in> set (callbacks w ''server-updates'')"
    by (simp_all add: active_def)
  from wf_handle [OF wf n] assms(3) have hu: "fst (handles w ! n) = hu" by auto
  from n have "handles w ! n \<in> set (handles w)" by simp
  with wf act have "snd (handles w ! n) \<in> set ?ds" unfolding well_formed_def by blast
  with assms(3) have "?hd \<in> set ?ds" by simp
  then obtain xs ys where ds: "?ds = xs @ ?hd # ys"
    by (auto simp: in_set_conv_decomp)
  from wf have "distinct ?ds" by (simp add: well_formed_def)
  with ds have nin: "?hd \<notin> set xs" "?hd \<notin> set ys" by auto
  have other: "\<forall>h \<in> set zs. \<forall>hu' dc'. h \<noteq> HandleDisconnect n hu' dc'"
    if "set zs \<subseteq> set ?ds" "?hd \<notin> set zs" for zs
  proof (intro ballI allI notI)
    fix h hu' dc' assume h: "h \<in> set zs" "h = HandleDisconnect n hu' dc'"
    with that(1) have "HandleDisconnect n hu' dc' \<in> set ?ds" by auto
    from wf_disconnect_unique [OF wf this] assms(3) have "HandleDisconnect n hu' dc' = ?hd" by simp
    with h that(2) show False by simp
  qed
  have sub: "set xs \<subseteq> set ?ds" "set ys \<subseteq> set ?ds"
    unfolding ds by auto
  have x: "filter (disconnect_call_of n) (concat (map (disconnect_calls reason) xs)) = []"
    by (rule disconnect_calls_other) (rule other [OF sub(1) nin(1)])
  have y: "filter (disconnect_call_of n) (concat (map (disconnect_calls reason) ys)) = []"
    by (rule disconnect_calls_other) (rule other [OF sub(2) nin(2)])
  have s: "since w w' = concat (map (disconnect_calls reason) xs)
             @ [Off ''server-updates'' (fst (handles w ! n)), OnDisconnect n dc reason]
             @ concat (map (disconnect_calls reason) ys)"
    unfolding assms(4) since_disconnect ds by (simp add: disconnect_calls_def hu)
  have 1: "\<exists>t1 t2. since w w' = t1 @ [Off ''server-updates'' (fst (handles w ! n)),
                                      OnDisconnect n dc reason] @ t2"
    using s by blast
  have 2: "filter (disconnect_call_of n) (since w w') = [OnDisconnect n dc reason]"
    unfolding s by (simp add: x y)
  have empty: "callbacks w' ''server-updates'' = []"
    unfolding assms(4) using wf by (rule after_disconnect)
  then have 3: "fst (handles w ! n) \<notin> set (callbacks w' ''server-updates'')" by simp
  have 4: "filter is_update_call (since w' (run decode ws evs' w')) = []"
    if "\<forall>e \<in> set evs'. \<not> is_subscribe e"
    using quiet_run [OF empty that, of decode ws] by (intro filter_since) simp
  from 1 2 3 4 show ?thesis by blast
qed

theorem disconnect_during_subscription_witness:
  "active 0 (run base64ToUint8Array ''workspace'' [Subscribe 7 8] (client ''workspace'' True))
   \<and> since (run base64ToUint8Array ''workspace'' [Subscribe 7 8] (client ''workspace'' True))
        (step base64ToUint8Array ''workspace'' (Disconnect ''transport close'')
          (run base64ToUint8Array ''workspace'' [Subscribe 7 8] (client ''workspace'' True)))
     = [Off ''server-updates'' (HandleUpdate 0 ''workspace'' 7),
        OnDisconnect 0 8 ''transport close'']
   \<and> filter (disconnect_call_of 0)
       (since (run base64ToUint8Array ''workspace'' [Subscribe 7 8] (client ''workspace'' True))
          (step base64ToUint8Array ''workspace'' (Disconnect ''transport close'')
            (run base64ToUint8Array ''workspace'' [Subscribe 7 8] (client ''workspace'' True))))
     = [OnDisconnect 0 8 ''transport close'']
   \<and> filter is_update_call
       (since
          (step base64ToUint8Array ''workspace'' (Disconnect ''transport close'')
            (run base64ToUint8Array ''workspace'' [Subscribe 7 8] (client ''workspace'' True)))
          (run base64ToUint8Array ''workspace''
            [Connect, ServerUpdates \<lparr>workspaceId = ''workspace'', guid = ''doc'', updates = [''AQI='']\<rparr>]
            (step base64ToUint8Array ''workspace'' (Disconnect ''transport close'')
              (run base64ToUint8Array ''workspace'' [Subscribe 7 8] (client ''workspace'' True)))))
     = []"
  using disconnect_during_subscription [where decode = base64ToUint8Array and ws = "''workspace''"
          and evs = "[Subscribe 7 8]" and c = True and n = 0
          and hu = "HandleUpdate 0 ''workspace'' 7" and dc = 8
          and reason = "''transport close''"
          and w = "run base64ToUint8Array ''workspace'' [Subscribe 7 8] (client ''workspace'' True)"
          and w' = "step base64ToUint8Array ''workspace'' (Disconnect ''transport close'')
            (run base64ToUint8Array ''workspace'' [Subscribe 7 8] (client ''workspace'' True))"
          and evs' = "[Connect, ServerUpdates \<lparr>workspaceId = ''workspace'', guid = ''doc'', updates = [''AQI='']\<rparr>]"]
  by (simp add: client_defs)

section \<open>Cancellation\<close>

lemma absent_step:
  assumes "well_formed ws w" "n < length (handles w)" "absent n w"
  shows "absent n (step decode ws e w)"
proof -
  from handles_step_nth [OF assms(2), of decode ws e]
  have nth: "handles (step decode ws e w) ! n = handles w ! n" by simp
  from wf_handle [OF assms(1,2)] obtain cb dc where
    p: "handles w ! n = (HandleUpdate n ws cb, HandleDisconnect n (HandleUpdate n ws cb) dc)"
    by blast
  from assms(3) have a: "fst (handles w ! n) \<notin> set (callbacks w ''server-updates'')"
    and b: "snd (handles w ! n) \<notin> set (callbacks w ''disconnect'')"
    by (simp_all add: absent_def)
  show ?thesis
  proof (cases e)
    case Connect
    with a b show ?thesis unfolding absent_def nth by (simp del: step.simps)
  next
    case (Disconnect r)
    have "set (callbacks (step decode ws (Disconnect r) w) ''server-updates'')
            \<subseteq> set (callbacks w ''server-updates'')"
      unfolding updates_disconnect by (rule set_foldl_remove1_subset)
    with a b Disconnect show ?thesis
      unfolding absent_def nth by (auto simp: updates_disconnect(2) simp del: step.simps)
  next
    case (ServerUpdates m)
    with a b show ?thesis unfolding absent_def nth by (simp add: updates_broadcast del: step.simps)
  next
    case (Subscribe cb' dc')
    with a b assms(2) show ?thesis
      unfolding absent_def nth by (simp add: updates_subscribe p del: step.simps)
  next
    case (Unsubscribe k)
    show ?thesis
    proof (cases "k < length (handles w)")
      case True
      have "set (remove1 x xs) \<subseteq> set xs" for x :: handler and xs
        by (rule set_remove1_subset)
      with a b Unsubscribe True show ?thesis
        unfolding absent_def nth by (auto simp: updates_unsubscribe simp del: step.simps)
    next
      case False
      with a b Unsubscribe show ?thesis
        unfolding absent_def by (simp add: updates_unsubscribe del: step.simps)
    qed
  next
    case Cleanup
    with a b show ?thesis unfolding absent_def nth by (simp add: updates_cleanup del: step.simps)
  qed
qed

lemma silent_step:
  assumes "well_formed ws w" "n < length (handles w)" "absent n w"
  shows "filter (update_call_of n) (trace (step decode ws e w)) =
           filter (update_call_of n) (trace w)"
proof (cases e)
  case Connect
  have "filter (update_call_of n) (concat (map connect_calls hs)) = []" for hs
  proof (induction hs)
    case Nil
    show ?case by simp
  next
    case (Cons h hs)
    then show ?case by (cases h) (simp_all add: connect_calls_def)
  qed
  with Connect show ?thesis by (simp add: trace_connect del: step.simps)
next
  case (Disconnect r)
  have "filter (update_call_of n) (concat (map (disconnect_calls r) hs)) = []" for hs
  proof (induction hs)
    case Nil
    show ?case by simp
  next
    case (Cons h hs)
    then show ?case by (cases h) (simp_all add: disconnect_calls_def)
  qed
  with Disconnect show ?thesis by (simp add: trace_disconnect del: step.simps)
next
  case (ServerUpdates m)
  from assms(3) have "fst (handles w ! n) \<notin> set (callbacks w ''server-updates'')"
    by (simp add: absent_def)
  from inactive_calls [OF assms(1,2) this, of decode m]
  have "filter (update_call_of n)
          (concat (map (update_calls decode m) (callbacks w ''server-updates''))) = []"
    by (simp only: since_broadcast)
  with ServerUpdates show ?thesis by (simp add: trace_broadcast del: step.simps)
next
  case (Subscribe cb dc)
  then show ?thesis by (simp add: trace_subscribe del: step.simps)
next
  case (Unsubscribe k)
  then show ?thesis by (simp add: trace_unsubscribe del: step.simps)
next
  case Cleanup
  then show ?thesis by (simp add: trace_cleanup del: step.simps)
qed

lemma absent_run:
  "well_formed ws w \<Longrightarrow> n < length (handles w) \<Longrightarrow> absent n w \<Longrightarrow>
     absent n (run decode ws evs w)
     \<and> filter (update_call_of n) (trace (run decode ws evs w)) =
         filter (update_call_of n) (trace w)"
proof (induction evs arbitrary: w)
  case Nil
  then show ?case by simp
next
  case (Cons e evs)
  have 1: "well_formed ws (step decode ws e w)" using Cons.prems(1) by (rule wf_step)
  have 2: "n < length (handles (step decode ws e w))"
    using handles_step_nth [OF Cons.prems(2)] by blast
  have 3: "absent n (step decode ws e w)" using Cons.prems by (rule absent_step)
  have 4: "filter (update_call_of n) (trace (step decode ws e w)) =
             filter (update_call_of n) (trace w)"
    using Cons.prems by (rule silent_step)
  from Cons.IH [OF 1 2 3] 4 show ?case by simp
qed

lemma unsubscribe_absent:
  assumes "well_formed ws w" "n < length (handles w)"
  shows "absent n (step decode ws (Unsubscribe n) w)"
proof -
  from handles_step_nth [OF assms(2), of decode ws "Unsubscribe n"]
  have nth: "handles (step decode ws (Unsubscribe n) w) ! n = handles w ! n" by simp
  from assms(1) have "distinct (callbacks w ''server-updates'')" "distinct (callbacks w ''disconnect'')"
    by (simp_all add: well_formed_def)
  then show ?thesis
    unfolding absent_def nth using assms(2) by (simp add: updates_unsubscribe del: step.simps)
qed

lemma unsubscribe_noop:
  assumes "n < length (handles w)" "absent n w"
  shows "step decode ws (Unsubscribe n) w =
           w\<lparr>trace := trace w @ [Off ''server-updates'' (fst (handles w ! n)),
                                  Off ''disconnect'' (snd (handles w ! n))]\<rparr>"
proof -
  from assms(2) have "remove1 (fst (handles w ! n)) (callbacks w ''server-updates'') =
                        callbacks w ''server-updates''"
    and "remove1 (snd (handles w ! n)) (callbacks w ''disconnect'') = callbacks w ''disconnect''"
    by (simp_all add: absent_def remove1_idem)
  with assms(1) show ?thesis
    by (simp add: unsubscribe_def socket_off_def)
qed

text \<open>
  Claim C8: in every state a client reaches, a call of the function returned by the
  \<open>n\<close>-th \<^verbatim>\<open>subscribe\<close> calls \<^verbatim>\<open>off\<close> for the two handlers of \<open>n\<close>, and
  neither is registered afterwards. Whatever happens next, a further call of the
  function changes neither the listeners nor anything else of the state (it calls
  \<^verbatim>\<open>off\<close> twice again, to no effect), and subscription \<open>n\<close> never calls its
  \<^verbatim>\<open>cb\<close> again.
\<close>

theorem unsubscribe_idempotent:
  assumes "w = run decode ws evs (client ws c)"
    and "n < length (handles w)"
    and "w' = step decode ws (Unsubscribe n) w"
    and "w'' = run decode ws evs' w'"
  shows "since w w' = [Off ''server-updates'' (fst (handles w ! n)),
                       Off ''disconnect'' (snd (handles w ! n))]
       \<and> fst (handles w ! n) \<notin> set (callbacks w' ''server-updates'')
       \<and> snd (handles w ! n) \<notin> set (callbacks w' ''disconnect'')
       \<and> callbacks (step decode ws (Unsubscribe n) w'') = callbacks w''
       \<and> handles (step decode ws (Unsubscribe n) w'') = handles w''
       \<and> connected (step decode ws (Unsubscribe n) w'') = connected w''
       \<and> since w'' (step decode ws (Unsubscribe n) w'') =
           [Off ''server-updates'' (fst (handles w ! n)), Off ''disconnect'' (snd (handles w ! n))]
       \<and> filter (update_call_of n) (since w' w'') = []"
proof -
  have wf: "well_formed ws w" unfolding assms(1) by (rule wf_reachable)
  have wfa: "well_formed ws w'" unfolding assms(3) using wf by (rule wf_step)
  from handles_step_nth [OF assms(2), of decode ws "Unsubscribe n"]
  have n1: "n < length (handles w')" and nth1: "handles w' ! n = handles w ! n"
    unfolding assms(3) by simp_all
  from handles_run_nth [OF n1, of decode ws evs']
  have n2: "n < length (handles w'')" and nth2: "handles w'' ! n = handles w ! n"
    unfolding assms(4) by (simp_all add: nth1)
  have a1: "absent n w'" unfolding assms(3) using wf assms(2) by (rule unsubscribe_absent)
  from absent_run [OF wfa n1 a1, of decode evs']
  have a2: "absent n w''"
    and quiet: "filter (update_call_of n) (trace (run decode ws evs' w')) =
                  filter (update_call_of n) (trace w')"
    unfolding assms(4) by simp_all
  have 1: "since w w' = [Off ''server-updates'' (fst (handles w ! n)),
                         Off ''disconnect'' (snd (handles w ! n))]"
    unfolding assms(3) using assms(2) by (intro since_append) (simp add: trace_unsubscribe del: step.simps)
  from a1 have 2: "fst (handles w ! n) \<notin> set (callbacks w' ''server-updates'')"
    and 3: "snd (handles w ! n) \<notin> set (callbacks w' ''disconnect'')"
    by (simp_all add: absent_def nth1)
  have again: "step decode ws (Unsubscribe n) w'' =
                 w''\<lparr>trace := trace w'' @ [Off ''server-updates'' (fst (handles w ! n)),
                                          Off ''disconnect'' (snd (handles w ! n))]\<rparr>"
    using unsubscribe_noop [OF n2 a2, of decode ws] by (simp only: nth2)
  have 4: "callbacks (step decode ws (Unsubscribe n) w'') = callbacks w''"
    and 5: "handles (step decode ws (Unsubscribe n) w'') = handles w''"
    and 6: "connected (step decode ws (Unsubscribe n) w'') = connected w''"
    unfolding again by simp_all
  have 7: "since w'' (step decode ws (Unsubscribe n) w'') =
             [Off ''server-updates'' (fst (handles w ! n)), Off ''disconnect'' (snd (handles w ! n))]"
    unfolding again by (simp add: since_def)
  have 8: "filter (update_call_of n) (since w' w'') = []"
    unfolding assms(4) using quiet by (rule filter_since)
  from 1 2 3 4 5 6 7 8 show ?thesis by blast
qed

theorem unsubscribe_idempotent_witness:
  "0 < length (handles (run base64ToUint8Array ''workspace'' [Subscribe 7 8] (client ''workspace'' True)))
   \<and> callbacks
        (step base64ToUint8Array ''workspace'' (Unsubscribe 0)
          (step base64ToUint8Array ''workspace'' (Unsubscribe 0)
            (run base64ToUint8Array ''workspace'' [Subscribe 7 8] (client ''workspace'' True))))
      = callbacks
        (step base64ToUint8Array ''workspace'' (Unsubscribe 0)
          (run base64ToUint8Array ''workspace'' [Subscribe 7 8] (client ''workspace'' True)))
   \<and> filter (update_call_of 0)
        (since
          (step base64ToUint8Array ''workspace'' (Unsubscribe 0)
            (run base64ToUint8Array ''workspace'' [Subscribe 7 8] (client ''workspace'' True)))
          (run base64ToUint8Array ''workspace''
            [ServerUpdates \<lparr>workspaceId = ''workspace'', guid = ''doc'', updates = [''AQI='']\<rparr>]
            (step base64ToUint8Array ''workspace'' (Unsubscribe 0)
              (run base64ToUint8Array ''workspace'' [Subscribe 7 8] (client ''workspace'' True)))))
      = []"
  using unsubscribe_idempotent [where decode = base64ToUint8Array and ws = "''workspace''"
          and evs = "[Subscribe 7 8]" and c = True and n = 0
          and w = "run base64ToUint8Array ''workspace'' [Subscribe 7 8] (client ''workspace'' True)"
          and w' = "step base64ToUint8Array ''workspace'' (Unsubscribe 0)
            (run base64ToUint8Array ''workspace'' [Subscribe 7 8] (client ''workspace'' True))"
          and evs' = "[]"
          and w'' = "step base64ToUint8Array ''workspace'' (Unsubscribe 0)
            (run base64ToUint8Array ''workspace'' [Subscribe 7 8] (client ''workspace'' True))"]
        unsubscribe_idempotent [where decode = base64ToUint8Array and ws = "''workspace''"
          and evs = "[Subscribe 7 8]" and c = True and n = 0
          and w = "run base64ToUint8Array ''workspace'' [Subscribe 7 8] (client ''workspace'' True)"
          and w' = "step base64ToUint8Array ''workspace'' (Unsubscribe 0)
            (run base64ToUint8Array ''workspace'' [Subscribe 7 8] (client ''workspace'' True))"
          and evs' = "[ServerUpdates \<lparr>workspaceId = ''workspace'', guid = ''doc'', updates = [''AQI='']\<rparr>]"
          and w'' = "run base64ToUint8Array ''workspace''
            [ServerUpdates \<lparr>workspaceId = ''workspace'', guid = ''doc'', updates = [''AQI='']\<rparr>]
            (step base64ToUint8Array ''workspace'' (Unsubscribe 0)
              (run base64ToUint8Array ''workspace'' [Subscribe 7 8] (client ''workspace'' True)))"]
  by (simp add: client_defs)

section \<open>Several subscriptions\<close>





end
